theory Spec2Isabelle
  imports Main "HOL-Library.Sublist"
begin

section \<open>The address-reallocation sequencer of vl6180x_multi\<close>

text \<open>
  The module \<open>vl6180x_multi.py\<close> defines one class, \<open>MultiSensor\<close>. Its constructor checks
  its arguments, drives every enable line low and calls \<open>_realloc_addr\<close>, which scans the bus,
  powers the sensors up one at a time, rewrites the bus address of each and finally opens one
  handle per sensor. Three query methods read a value from a handle of the resulting list.

  The GPIO library, the bus and the sensor driver are external. Every call into them is recorded
  in a log together with its outcome, and the outcome is supplied by an environment, so that
  each theorem holds for every behaviour of the hardware.
\<close>

subsection \<open>Exceptions\<close>

text \<open>
  The Python exceptions the module distinguishes. \<open>OtherException\<close> stands for any other
  subclass of \<open>Exception\<close> (\<open>ValueError\<close>, \<open>RuntimeError\<close>, ...), \<open>NonException\<close> for a
  \<open>BaseException\<close> that is not an \<open>Exception\<close> (\<open>KeyboardInterrupt\<close>, \<open>SystemExit\<close>).
\<close>

datatype exn = AssertionError | OSError | IndexError | OtherException | NonException

fun is_Exception :: "exn \<Rightarrow> bool" where
  "is_Exception NonException = False"
| "is_Exception _ = True"

subsection \<open>External calls and their log\<close>

type_synonym channel = int
type_synonym i2c_addr = int

datatype level = LOW | HIGH

text \<open>
  \<open>VL6180X a off\<close> is the driver's constructor \<open>adafruit_vl6180x.VL6180X(i2c, address=a,
  offset=off)\<close> (the offset is 0 when the source leaves it out); \<open>Write_8 h r v\<close> is
  \<open>_write_8(r, v)\<close> on the handle opened at address \<open>h\<close>.
\<close>

datatype call =
    GPIO_setmode int
  | GPIO_setup "channel list"
  | GPIO_output "channel list" level
  | I2C_open
  | I2C_scan
  | Sleep
  | VL6180X i2c_addr int
  | Write_8 i2c_addr int int

text \<open>A log entry is a call with its outcome: \<open>None\<close> when it returned, the exception otherwise.\<close>

type_synonym trace = "(call \<times> exn option) list"

text \<open>
  The environment fixes the outcome of every external call. The calls of the reassignment loop
  are keyed by the target address of the iteration (a dictionary key, so each occurs once), the
  final handle opens by their position in the input list.
\<close>

record env =
  setmode_exn :: "exn option"
  setup_exn :: "exn option"
  reset_exn :: "exn option"
  i2c_exn :: "exn option"
  scan_out :: "exn + i2c_addr list"
  enable_exn :: "i2c_addr \<Rightarrow> exn option"
  temp_exn :: "i2c_addr \<Rightarrow> exn option"
  write_exn :: "i2c_addr \<Rightarrow> exn option"
  sensor_exn :: "nat \<Rightarrow> exn option"

subsection \<open>Constants\<close>

definition SUBORDINATE_ADDR_REG :: int where
  "SUBORDINATE_ADDR_REG = 0x212"

text \<open>The two pin-numbering modes of \<open>RPi.GPIO\<close>, with the values that library gives them.\<close>

definition GPIO_BOARD :: int where
  "GPIO_BOARD = 10"

definition GPIO_BCM :: int where
  "GPIO_BCM = 11"

subsection \<open>The dictionary of pending devices\<close>

text \<open>
  A Python \<open>dict\<close> keeps its keys in insertion order; storing under a key that is present
  replaces the value and leaves the key where it is.
\<close>

primrec dict_set :: "'k \<Rightarrow> 'v \<Rightarrow> ('k \<times> 'v) list \<Rightarrow> ('k \<times> 'v) list" where
  "dict_set k v [] = [(k, v)]"
| "dict_set k v (p # ps) = (if fst p = k then (k, v) # ps else p # dict_set k v ps)"

definition working_address ::
  "i2c_addr list \<Rightarrow> channel list \<Rightarrow> i2c_addr list \<Rightarrow> (i2c_addr \<times> channel) list" where
  "working_address i2c_addresses channels busy_addr =
     foldl (\<lambda>d (i2c_address, channel).
              if i2c_address \<notin> set busy_addr then dict_set i2c_address channel d else d)
       [] (zip i2c_addresses channels)"

subsection \<open>The reassignment loop\<close>

text \<open>
  The body of the \<open>try\<close> of one iteration: open a temporary handle at the default address and
  write the new address. It gives the exception raised, if any, and the calls made.
\<close>

definition try_reassign :: "env \<Rightarrow> i2c_addr \<Rightarrow> i2c_addr \<Rightarrow> exn option \<times> trace" where
  "try_reassign env default_i2c_address i2c_address =
     (case temp_exn env i2c_address of
        Some e \<Rightarrow> (Some e, [(VL6180X default_i2c_address 0, Some e)])
      | None \<Rightarrow>
          (write_exn env i2c_address,
           [(VL6180X default_i2c_address 0, None),
            (Write_8 default_i2c_address SUBORDINATE_ADDR_REG i2c_address,
             write_exn env i2c_address)]))"

text \<open>
  The loop over \<open>working_address.items()\<close>. \<open>GPIO.output\<close> is outside the \<open>try\<close>, so any
  exception of it leaves the loop; of the exceptions of the \<open>try\<close> body only \<open>OSError\<close> is caught.
\<close>

fun realloc_loop ::
  "env \<Rightarrow> i2c_addr \<Rightarrow> (i2c_addr \<times> channel) list \<Rightarrow> trace \<Rightarrow> exn option \<times> trace" where
  "realloc_loop env d [] tr = (None, tr)"
| "realloc_loop env d ((i2c_address, channel) # items) tr =
     (case enable_exn env i2c_address of
        Some e \<Rightarrow> (Some e, tr @ [(GPIO_output [channel] HIGH, Some e)])
      | None \<Rightarrow>
          (let (r, evs) = try_reassign env d i2c_address;
               tr' = tr @ [(GPIO_output [channel] HIGH, None), (Sleep, None)] @ evs
           in if r = None \<or> r = Some OSError then realloc_loop env d items tr'
              else (r, tr')))"

subsection \<open>Building the handles\<close>

record sensor =
  address :: i2c_addr
  offset :: int

text \<open>
  The loop over \<open>zip(i2c_addresses, offsets)\<close>: a handle that opens is appended to the list,
  an \<open>OSError\<close> skips the entry, any other exception leaves the loop.
\<close>

fun build_loop ::
  "env \<Rightarrow> nat \<Rightarrow> (i2c_addr \<times> int) list \<Rightarrow> sensor list \<Rightarrow> trace
     \<Rightarrow> (exn + sensor list) \<times> trace" where
  "build_loop env i [] sensors tr = (Inr sensors, tr)"
| "build_loop env i ((i2c_address, off) # rest) sensors tr =
     (let tr' = tr @ [(VL6180X i2c_address off, sensor_exn env i)]
      in case sensor_exn env i of
           None \<Rightarrow>
             build_loop env (Suc i) rest
               (sensors @ [\<lparr>address = i2c_address, offset = off\<rparr>]) tr'
         | Some e \<Rightarrow>
             if e = OSError then build_loop env (Suc i) rest sensors tr' else (Inl e, tr'))"

subsection \<open>\<open>_realloc_addr\<close> and the constructor\<close>

definition realloc_addr ::
  "env \<Rightarrow> channel list \<Rightarrow> i2c_addr list \<Rightarrow> int list \<Rightarrow> i2c_addr \<Rightarrow> trace
     \<Rightarrow> (exn + sensor list) \<times> trace" where
  "realloc_addr env channels i2c_addresses offsets default_i2c_address tr =
     (case i2c_exn env of
        Some e \<Rightarrow> (Inl e, tr @ [(I2C_open, Some e)])
      | None \<Rightarrow>
          (case scan_out env of
             Inl e \<Rightarrow> (Inl e, tr @ [(I2C_open, None), (I2C_scan, Some e)])
           | Inr busy_addr \<Rightarrow>
               (case realloc_loop env default_i2c_address
                       (working_address i2c_addresses channels busy_addr)
                       (tr @ [(I2C_open, None), (I2C_scan, None)]) of
                  (Some e, tr') \<Rightarrow> (Inl e, tr')
                | (None, tr') \<Rightarrow> build_loop env 0 (zip i2c_addresses offsets) [] tr')))"

text \<open>
  The constructor. Its arguments are typed, so the \<open>isinstance\<close> checks on \<open>ce_gpios\<close>,
  \<open>new_i2c_addresses\<close> and \<open>default_i2c_address\<close> hold; \<open>offsets\<close> is \<open>None\<close> when the caller
  leaves it out, and \<open>isinstance(offsets, list)\<close> is checked before the default is filled in.
  The handler around the hardware calls prints and raises the exception again. The result is
  the value of \<open>self.sensors\<close>, or the exception, with the log of the external calls.
\<close>

definition init ::
  "env \<Rightarrow> channel list \<Rightarrow> i2c_addr list \<Rightarrow> int list option \<Rightarrow> int \<Rightarrow> i2c_addr
     \<Rightarrow> (exn + sensor list) \<times> trace" where
  "init env ce_gpios new_i2c_addresses offsets mode_gpio default_i2c_address =
     (if length ce_gpios \<noteq> length new_i2c_addresses then (Inl AssertionError, [])
      else if offsets = None then (Inl AssertionError, [])
      else
        (let offs = (case offsets of None \<Rightarrow> replicate (length ce_gpios) 0 | Some l \<Rightarrow> l)
         in if length ce_gpios \<noteq> length offs then (Inl AssertionError, [])
            else if \<not> (\<forall>addr \<in> set new_i2c_addresses. 0 \<le> addr \<and> addr \<le> 127)
              then (Inl AssertionError, [])
            else if mode_gpio \<noteq> GPIO_BCM \<and> mode_gpio \<noteq> GPIO_BOARD
              then (Inl AssertionError, [])
            else if \<not> (0 \<le> default_i2c_address \<and> default_i2c_address \<le> 127)
              then (Inl AssertionError, [])
            else
              (case setmode_exn env of
                 Some e \<Rightarrow> (Inl e, [(GPIO_setmode mode_gpio, Some e)])
               | None \<Rightarrow>
                   (case setup_exn env of
                      Some e \<Rightarrow>
                        (Inl e, [(GPIO_setmode mode_gpio, None), (GPIO_setup ce_gpios, Some e)])
                    | None \<Rightarrow>
                        (case reset_exn env of
                           Some e \<Rightarrow>
                             (Inl e, [(GPIO_setmode mode_gpio, None), (GPIO_setup ce_gpios, None),
                                      (GPIO_output ce_gpios LOW, Some e)])
                         | None \<Rightarrow>
                             realloc_addr env ce_gpios new_i2c_addresses offs default_i2c_address
                               [(GPIO_setmode mode_gpio, None), (GPIO_setup ce_gpios, None),
                                (GPIO_output ce_gpios LOW, None)])))))"

subsection \<open>The query methods\<close>

text \<open>Indexing a Python list: a negative index counts from the end, out of range raises.\<close>

definition py_getitem :: "'a list \<Rightarrow> int \<Rightarrow> exn + 'a" where
  "py_getitem xs i =
     (let n = int (length xs)
      in if 0 \<le> i \<and> i < n then Inr (xs ! nat i)
         else if - n \<le> i \<and> i < 0 then Inr (xs ! nat (n + i))
         else Inl IndexError)"

text \<open>
  The three methods have one shape: index the list, read from the handle, and turn
  \<open>IndexError\<close> and every other \<open>Exception\<close> into the result \<open>None\<close>. The read is a parameter:
  the property \<open>range\<close> (here \<open>read_range\<close>), the method \<open>read_lux(gain)\<close>, the property
  \<open>range_status\<close> (here \<open>read_status\<close>).
\<close>

definition query :: "(sensor \<Rightarrow> exn + 'v) \<Rightarrow> sensor list \<Rightarrow> int \<Rightarrow> exn + 'v option" where
  "query rd sensors idx_sensor =
     (case (case py_getitem sensors idx_sensor of Inl e \<Rightarrow> Inl e | Inr s \<Rightarrow> rd s) of
        Inr v \<Rightarrow> Inr (Some v)
      | Inl e \<Rightarrow>
          if e = IndexError then Inr None
          else if is_Exception e then Inr None
          else Inl e)"

definition get_range :: "(sensor \<Rightarrow> exn + int) \<Rightarrow> sensor list \<Rightarrow> int \<Rightarrow> exn + int option" where
  "get_range read_range sensors idx_sensor = query read_range sensors idx_sensor"

definition get_lux ::
  "(sensor \<Rightarrow> int \<Rightarrow> exn + 'l) \<Rightarrow> sensor list \<Rightarrow> int \<Rightarrow> int \<Rightarrow> exn + 'l option" where
  "get_lux read_lux sensors idx_sensor gain = query (\<lambda>s. read_lux s gain) sensors idx_sensor"

definition get_range_status ::
  "(sensor \<Rightarrow> exn + int) \<Rightarrow> sensor list \<Rightarrow> int \<Rightarrow> exn + int option" where
  "get_range_status read_status sensors idx_sensor = query read_status sensors idx_sensor"

subsection \<open>The log of a run that completes\<close>

text \<open>
  The definitions below are not code of the module: they describe the log and the result of a
  run in which no exception leaves a loop, and state when the environment allows that. The
  lemmas of the next sections relate them to the functions above.

  The calls made before the reassignment loop, all returning.
\<close>

definition prologue :: "int \<Rightarrow> channel list \<Rightarrow> trace" where
  "prologue mode_gpio ce_gpios =
     [(GPIO_setmode mode_gpio, None), (GPIO_setup ce_gpios, None),
      (GPIO_output ce_gpios LOW, None), (I2C_open, None), (I2C_scan, None)]"

text \<open>The calls of one iteration of the reassignment loop whose \<open>GPIO.output\<close> returns.\<close>

definition iter_events :: "env \<Rightarrow> i2c_addr \<Rightarrow> i2c_addr \<times> channel \<Rightarrow> trace" where
  "iter_events env d item =
     [(GPIO_output [snd item] HIGH, None), (Sleep, None)] @ snd (try_reassign env d (fst item))"

text \<open>The handle opens of the final loop, from position \<open>i\<close> on, and the handles it keeps.\<close>

fun build_events :: "env \<Rightarrow> nat \<Rightarrow> (i2c_addr \<times> int) list \<Rightarrow> trace" where
  "build_events env i [] = []"
| "build_events env i ((a, off) # rest) =
     (VL6180X a off, sensor_exn env i) # build_events env (Suc i) rest"

fun built :: "env \<Rightarrow> nat \<Rightarrow> (i2c_addr \<times> int) list \<Rightarrow> sensor list" where
  "built env i [] = []"
| "built env i ((a, off) # rest) =
     (if sensor_exn env i = None then [\<lparr>address = a, offset = off\<rparr>] else [])
       @ built env (Suc i) rest"

text \<open>
  An environment in which the GPIO calls and the opening of the bus return, and a handle open
  or a register write either returns or raises \<open>OSError\<close>. It says nothing of the bus scan.
\<close>

definition transport_failures_only :: "env \<Rightarrow> bool" where
  "transport_failures_only env \<longleftrightarrow>
     setmode_exn env = None \<and> setup_exn env = None \<and> reset_exn env = None
     \<and> i2c_exn env = None
     \<and> (\<forall>a. enable_exn env a = None)
     \<and> (\<forall>a. temp_exn env a = None \<or> temp_exn env a = Some OSError)
     \<and> (\<forall>a. write_exn env a = None \<or> write_exn env a = Some OSError)
     \<and> (\<forall>i. sensor_exn env i = None \<or> sensor_exn env i = Some OSError)"

subsection \<open>Enable lines and reassigned addresses, read off a log\<close>

text \<open>
  These definitions, too, are not code of the module: they read the state of the hardware off
  a log. A line is asserted after a log when the last \<open>GPIO.output\<close> that returned and drove
  it drove it high.
\<close>

fun drive :: "channel \<Rightarrow> bool \<Rightarrow> call \<times> exn option \<Rightarrow> bool" where
  "drive c b (GPIO_output cs lvl, None) = (if c \<in> set cs then lvl = HIGH else b)"
| "drive c b _ = b"

definition asserted :: "trace \<Rightarrow> channel \<Rightarrow> bool" where
  "asserted tr c = foldl (drive c) False tr"

text \<open>
  An address is reassigned after a log when a write of it to the address register returned.
\<close>

fun is_reassign :: "i2c_addr \<Rightarrow> call \<times> exn option \<Rightarrow> bool" where
  "is_reassign a (Write_8 h reg v, None) = (reg = SUBORDINATE_ADDR_REG \<and> v = a)"
| "is_reassign a _ = False"

definition reassigned :: "trace \<Rightarrow> i2c_addr \<Rightarrow> bool" where
  "reassigned tr a = (\<exists>e \<in> set tr. is_reassign a e)"

text \<open>
  The devices, as (target address, enable line) pairs of the input, that are powered and not
  yet reassigned after a log.
\<close>

definition powered_unassigned ::
  "i2c_addr list \<Rightarrow> channel list \<Rightarrow> trace \<Rightarrow> (i2c_addr \<times> channel) list" where
  "powered_unassigned i2c_addresses channels tr =
     filter (\<lambda>(a, c). asserted tr c \<and> \<not> reassigned tr a) (zip i2c_addresses channels)"

text \<open>
  \<open>is_high\<close>: the entry is a \<open>GPIO.output(..., HIGH)\<close> that returned. \<open>settled\<close>: every device
  whose line is asserted has been reassigned. \<open>one_at_a_time\<close>: at every instant of the log at
  most one device is powered and not yet reassigned.
\<close>

fun is_high :: "call \<times> exn option \<Rightarrow> bool" where
  "is_high (GPIO_output cs HIGH, None) = True"
| "is_high _ = False"

definition settled :: "i2c_addr list \<Rightarrow> channel list \<Rightarrow> trace \<Rightarrow> bool" where
  "settled i2c_addresses channels tr \<longleftrightarrow>
     (\<forall>(a, c) \<in> set (zip i2c_addresses channels). asserted tr c \<longrightarrow> reassigned tr a)"

definition one_at_a_time :: "i2c_addr list \<Rightarrow> channel list \<Rightarrow> trace \<Rightarrow> bool" where
  "one_at_a_time i2c_addresses channels tr \<longleftrightarrow>
     (\<forall>p. prefix p tr \<longrightarrow> length (powered_unassigned i2c_addresses channels p) \<le> 1)"

subsection \<open>Environments used in the examples\<close>

text \<open>Every call succeeds and the bus scan finds no device.\<close>

definition all_respond :: env where
  "all_respond =
     \<lparr>setmode_exn = None, setup_exn = None, reset_exn = None, i2c_exn = None,
      scan_out = Inr [], enable_exn = (\<lambda>_. None), temp_exn = (\<lambda>_. None),
      write_exn = (\<lambda>_. None), sensor_exn = (\<lambda>_. None)\<rparr>"

text \<open>The bus scan raises \<open>OSError\<close>.\<close>

definition scan_raises :: env where
  "scan_raises = all_respond\<lparr>scan_out := Inl OSError\<rparr>"

text \<open>The write that moves a sensor to address \<open>0x30\<close> raises \<open>OSError\<close>.\<close>

definition write_0x30_raises :: env where
  "write_0x30_raises =
     all_respond\<lparr>write_exn := (\<lambda>a. if a = 0x30 then Some OSError else None)\<rparr>"

text \<open>The bus scan finds a device at \<open>0x31\<close>.\<close>

definition live_0x31 :: env where
  "live_0x31 = all_respond\<lparr>scan_out := Inr [0x31]\<rparr>"

text \<open>The final handle open of the second input entry raises \<open>OSError\<close>.\<close>

definition open_1_raises :: env where
  "open_1_raises = all_respond\<lparr>sensor_exn := (\<lambda>i. if i = 1 then Some OSError else None)\<rparr>"

text \<open>
  Three calls raise \<open>OSError\<close>: the write that moves a sensor to \<open>0x30\<close>, the opening of the
  temporary handle in the iteration for \<open>0x31\<close>, and the final handle open of the third entry.
\<close>

definition three_failures :: env where
  "three_failures =
     all_respond\<lparr>temp_exn := (\<lambda>a. if a = 0x31 then Some OSError else None),
                 write_exn := (\<lambda>a. if a = 0x30 then Some OSError else None),
                 sensor_exn := (\<lambda>i. if i = 2 then Some OSError else None)\<rparr>"

lemmas run_simps = init_def realloc_addr_def working_address_def try_reassign_def
  GPIO_BCM_def GPIO_BOARD_def SUBORDINATE_ADDR_REG_def

section \<open>Argument checks\<close>

text \<open>
  C3. Claim: when the caller leaves the offsets out, the constructor behaves as if a list of
  zeros as long as the enable-line list had been given, and raises no configuration error.
  The source does fill in \<open>[0] * len(ce_gpios)\<close> for \<open>None\<close>, but only after
  \<open>assert isinstance(offsets, list)\<close>, which \<open>None\<close> fails: with the offsets left out the
  constructor raises \<open>AssertionError\<close> on every input, before any hardware call.
\<close>

theorem init_without_offsets_raises:
  "init env ce_gpios new_i2c_addresses None mode_gpio default_i2c_address
     = (Inl AssertionError, [])"
  by (simp add: init_def)

theorem init_without_offsets_raises_witness:
  "init all_respond [10] [0x30] None GPIO_BCM 0x29 = (Inl AssertionError, [])
   \<and> fst (init all_respond [10] [0x30] (Some [0]) GPIO_BCM 0x29)
       = Inr [\<lparr>address = 0x30, offset = 0\<rparr>]"
proof -
  have "init all_respond [10] [0x30] None GPIO_BCM 0x29 = (Inl AssertionError, [])"
    by (rule init_without_offsets_raises)
  moreover have "fst (init all_respond [10] [0x30] (Some [0]) GPIO_BCM 0x29)
       = Inr [\<lparr>address = 0x30, offset = 0\<rparr>]"
    by (simp add: init_def realloc_addr_def working_address_def try_reassign_def
          all_respond_def GPIO_BCM_def)
  ultimately show ?thesis by simp
qed

text \<open>
  C7. When the enable-line list and the address list differ in length, or a target address or
  the default address lies outside 0..127, or the pin-numbering mode is neither \<open>GPIO.BCM\<close> nor
  \<open>GPIO.BOARD\<close>, the constructor raises \<open>AssertionError\<close> and the log of hardware calls is empty:
  no pin mode is set, no enable line is driven, no bus transaction is made.
\<close>

theorem init_bad_config_no_hardware:
  assumes "length ce_gpios \<noteq> length new_i2c_addresses
     \<or> (\<exists>addr \<in> set new_i2c_addresses. addr < 0 \<or> 127 < addr)
     \<or> default_i2c_address < 0 \<or> 127 < default_i2c_address
     \<or> (mode_gpio \<noteq> GPIO_BCM \<and> mode_gpio \<noteq> GPIO_BOARD)"
  shows "init env ce_gpios new_i2c_addresses offsets mode_gpio default_i2c_address
     = (Inl AssertionError, [])"
  using assms by (cases offsets) (auto simp: init_def Let_def)

theorem init_bad_config_no_hardware_witness:
  "init all_respond [10, 9] [0x30, 200] (Some [0, 0]) GPIO_BCM 0x29 = (Inl AssertionError, [])
   \<and> init all_respond [10, 9] [0x30] (Some [0, 0]) GPIO_BCM 0x29 = (Inl AssertionError, [])
   \<and> init all_respond [10] [0x30] (Some [0]) GPIO_BCM 128 = (Inl AssertionError, [])
   \<and> init all_respond [10] [0x30] (Some [0]) 7 0x29 = (Inl AssertionError, [])"
proof -
  have "init all_respond [10, 9] [0x30, 200] (Some [0, 0]) GPIO_BCM 0x29
          = (Inl AssertionError, [])"
    by (rule init_bad_config_no_hardware) simp
  moreover have "init all_respond [10, 9] [0x30] (Some [0, 0]) GPIO_BCM 0x29
          = (Inl AssertionError, [])"
    by (rule init_bad_config_no_hardware) simp
  moreover have "init all_respond [10] [0x30] (Some [0]) GPIO_BCM 128
          = (Inl AssertionError, [])"
    by (rule init_bad_config_no_hardware) simp
  moreover have "init all_respond [10] [0x30] (Some [0]) 7 0x29 = (Inl AssertionError, [])"
    by (rule init_bad_config_no_hardware) (simp add: GPIO_BCM_def GPIO_BOARD_def)
  ultimately show ?thesis by simp
qed

section \<open>The query methods\<close>

lemma query_out_of_range:
  "idx < - int (length sensors) \<or> int (length sensors) \<le> idx
   \<Longrightarrow> query rd sensors idx = Inr None"
  by (auto simp: query_def py_getitem_def Let_def)

lemma query_read_raises:
  "py_getitem sensors idx = Inr s \<Longrightarrow> rd s = Inl e \<Longrightarrow> is_Exception e
   \<Longrightarrow> query rd sensors idx = Inr None"
  by (simp add: query_def)

lemma query_from_end:
  "- int (length sensors) \<le> i \<Longrightarrow> i < 0
   \<Longrightarrow> rd (sensors ! nat (int (length sensors) + i)) = Inr v
   \<Longrightarrow> query rd sensors i = Inr (Some v)"
  by (auto simp: query_def py_getitem_def Let_def)

text \<open>
  C8. For \<open>get_range\<close>, \<open>get_lux\<close> and \<open>get_range_status\<close> and every index: when the index is
  out of range (below \<open>-n\<close> or at least \<open>n\<close> for a list of \<open>n\<close> sensors), or the read on the
  indexed handle raises a transport error (\<open>OSError\<close>), the method returns \<open>None\<close>; it does not
  raise.
\<close>

theorem queries_return_None_on_error:
  "(idx < - int (length sensors) \<or> int (length sensors) \<le> idx
      \<or> (\<exists>s. py_getitem sensors idx = Inr s \<and> read_range s = Inl OSError)
     \<longrightarrow> get_range read_range sensors idx = Inr None)
   \<and> (idx < - int (length sensors) \<or> int (length sensors) \<le> idx
      \<or> (\<exists>s. py_getitem sensors idx = Inr s \<and> read_lux s gain = Inl OSError)
     \<longrightarrow> get_lux read_lux sensors idx gain = Inr None)
   \<and> (idx < - int (length sensors) \<or> int (length sensors) \<le> idx
      \<or> (\<exists>s. py_getitem sensors idx = Inr s \<and> read_status s = Inl OSError)
     \<longrightarrow> get_range_status read_status sensors idx = Inr None)"
  by (auto simp: get_range_def get_lux_def get_range_status_def
           intro: query_out_of_range query_read_raises)

theorem queries_return_None_on_error_witness:
  "get_range (\<lambda>s. Inl OSError) [\<lparr>address = 0x30, offset = 0\<rparr>] 0 = Inr None
   \<and> get_lux (\<lambda>s g. Inl OSError :: exn + int) [\<lparr>address = 0x30, offset = 0\<rparr>] 0 1 = Inr None
   \<and> get_range_status (\<lambda>s. Inl OSError) [\<lparr>address = 0x30, offset = 0\<rparr>] 0 = Inr None
   \<and> get_range (\<lambda>s. Inr 57) [\<lparr>address = 0x30, offset = 0\<rparr>] 1 = Inr None
   \<and> get_range (\<lambda>s. Inr 57) [\<lparr>address = 0x30, offset = 0\<rparr>] (- 2) = Inr None"
proof -
  have g: "py_getitem [\<lparr>address = 0x30, offset = 0\<rparr>] 0 = Inr \<lparr>address = 0x30, offset = 0\<rparr>"
    by (simp add: py_getitem_def)
  have a: "get_range (\<lambda>s. Inl OSError) [\<lparr>address = 0x30, offset = 0\<rparr>] 0 = Inr None
     \<and> get_lux (\<lambda>s g. Inl OSError :: exn + int) [\<lparr>address = 0x30, offset = 0\<rparr>] 0 1 = Inr None
     \<and> get_range_status (\<lambda>s. Inl OSError) [\<lparr>address = 0x30, offset = 0\<rparr>] 0 = Inr None"
    using queries_return_None_on_error
      [of 0 "[\<lparr>address = 0x30, offset = 0\<rparr>]" "\<lambda>s. Inl OSError"
          "\<lambda>s g. Inl OSError :: exn + int" 1 "\<lambda>s. Inl OSError"] g
    by simp
  have b: "get_range (\<lambda>s. Inr 57) [\<lparr>address = 0x30, offset = 0\<rparr>] 1 = Inr None"
    using queries_return_None_on_error
      [of 1 "[\<lparr>address = 0x30, offset = 0\<rparr>]" "\<lambda>s. Inr 57" "\<lambda>s g. Inr (0::int)" 0 "\<lambda>s. Inr 0"]
    by simp
  have c: "get_range (\<lambda>s. Inr 57) [\<lparr>address = 0x30, offset = 0\<rparr>] (- 2) = Inr None"
    using queries_return_None_on_error
      [of "- 2" "[\<lparr>address = 0x30, offset = 0\<rparr>]" "\<lambda>s. Inr 57" "\<lambda>s g. Inr (0::int)" 0
          "\<lambda>s. Inr 0"]
    by simp
  from a b c show ?thesis by simp
qed

text \<open>
  C10. For a list of \<open>n\<close> sensors and an index \<open>i\<close> with \<open>-n \<le> i < 0\<close> (so the list is not
  empty), none of \<open>get_range\<close>, \<open>get_lux\<close> and \<open>get_range_status\<close> treats \<open>i\<close> as invalid: each
  returns the reading of the sensor at position \<open>n + i\<close>, not \<open>None\<close>.
\<close>

theorem negative_index_reads_from_end:
  assumes "- int (length sensors) \<le> i" and "i < 0"
  shows "(read_range (sensors ! nat (int (length sensors) + i)) = Inr v
            \<longrightarrow> get_range read_range sensors i = Inr (Some v))
     \<and> (read_lux (sensors ! nat (int (length sensors) + i)) gain = Inr l
            \<longrightarrow> get_lux read_lux sensors i gain = Inr (Some l))
     \<and> (read_status (sensors ! nat (int (length sensors) + i)) = Inr st
            \<longrightarrow> get_range_status read_status sensors i = Inr (Some st))"
  using assms
  by (simp add: get_range_def get_lux_def get_range_status_def query_from_end)

theorem negative_index_reads_from_end_witness:
  "get_range (\<lambda>s. Inr (address s + 1))
     [\<lparr>address = 0x30, offset = 0\<rparr>, \<lparr>address = 0x31, offset = 0\<rparr>] (- 1) = Inr (Some 0x32)
   \<and> get_lux (\<lambda>s g. Inr (address s + g))
     [\<lparr>address = 0x30, offset = 0\<rparr>, \<lparr>address = 0x31, offset = 0\<rparr>] (- 2) 5 = Inr (Some 0x35)
   \<and> get_range_status (\<lambda>s. Inr (offset s))
     [\<lparr>address = 0x30, offset = 7\<rparr>, \<lparr>address = 0x31, offset = 9\<rparr>] (- 1) = Inr (Some 9)"
proof -
  have a: "get_range (\<lambda>s. Inr (address s + 1))
     [\<lparr>address = 0x30, offset = 0\<rparr>, \<lparr>address = 0x31, offset = 0\<rparr>] (- 1) = Inr (Some 0x32)"
    using negative_index_reads_from_end
      [of "[\<lparr>address = 0x30, offset = 0\<rparr>, \<lparr>address = 0x31, offset = 0\<rparr>]" "- 1"
          "\<lambda>s. Inr (address s + 1)" "0x32" "\<lambda>s g. Inr (0 :: int)" 0 0 "\<lambda>s. Inr 0" 0]
    by simp
  have b: "get_lux (\<lambda>s g. Inr (address s + g))
     [\<lparr>address = 0x30, offset = 0\<rparr>, \<lparr>address = 0x31, offset = 0\<rparr>] (- 2) 5 = Inr (Some 0x35)"
    using negative_index_reads_from_end
      [of "[\<lparr>address = 0x30, offset = 0\<rparr>, \<lparr>address = 0x31, offset = 0\<rparr>]" "- 2"
          "\<lambda>s. Inr 0" 0 "\<lambda>s g. Inr (address s + g)" 5 "0x35" "\<lambda>s. Inr 0" 0]
    by simp
  have c: "get_range_status (\<lambda>s. Inr (offset s))
     [\<lparr>address = 0x30, offset = 7\<rparr>, \<lparr>address = 0x31, offset = 9\<rparr>] (- 1) = Inr (Some 9)"
    using negative_index_reads_from_end
      [of "[\<lparr>address = 0x30, offset = 7\<rparr>, \<lparr>address = 0x31, offset = 9\<rparr>]" "- 1"
          "\<lambda>s. Inr 0" 0 "\<lambda>s g. Inr (0 :: int)" 0 0 "\<lambda>s. Inr (offset s)" 9]
    by simp
  from a b c show ?thesis by simp
qed

section \<open>The dictionary of pending devices\<close>

lemma dict_set_keys:
  "map fst (dict_set k v d) = (if k \<in> fst ` set d then map fst d else map fst d @ [k])"
  by (induction d) auto

lemma dict_set_fresh: "k \<notin> fst ` set d \<Longrightarrow> dict_set k v d = d @ [(k, v)]"
  by (induction d) auto

lemma set_dict_set: "set (dict_set k v d) \<subseteq> insert (k, v) (set d)"
  by (induction d) auto

lemma map_of_dict_set: "map_of (dict_set k v d) = (map_of d)(k \<mapsto> v)"
  by (induction d) (auto simp: fun_eq_iff)

lemma working_address_snoc:
  "length as = length cs \<Longrightarrow>
   working_address (as @ [a]) (cs @ [c]) busy =
     (if a \<notin> set busy then dict_set a c (working_address as cs busy)
      else working_address as cs busy)"
  by (simp add: working_address_def)

lemma working_address_subset:
  "set (working_address as cs busy) \<subseteq> {p \<in> set (zip as cs). fst p \<notin> set busy}"
proof -
  have "set (foldl (\<lambda>d (a, c). if a \<notin> set busy then dict_set a c d else d) [] ps)
          \<subseteq> {p \<in> set ps. fst p \<notin> set busy}" for ps :: "(i2c_addr \<times> channel) list"
  proof (induction ps rule: rev_induct)
    case Nil
    show ?case by simp
  next
    case (snoc p ps)
    obtain a c where p: "p = (a, c)" by (cases p)
    show ?case
      using snoc set_dict_set [of a c "foldl (\<lambda>d (a, c). if a \<notin> set busy then dict_set a c d else d) [] ps"]
      by (auto simp: p)
  qed
  then show ?thesis by (simp add: working_address_def)
qed

lemma working_address_distinct: "distinct (map fst (working_address as cs busy))"
proof -
  have "distinct (map fst (foldl (\<lambda>d (a, c). if a \<notin> set busy then dict_set a c d else d) [] ps))"
    for ps :: "(i2c_addr \<times> channel) list"
  proof (induction ps rule: rev_induct)
    case Nil
    show ?case by simp
  next
    case (snoc p ps)
    obtain a c where p: "p = (a, c)" by (cases p)
    show ?case using snoc by (simp add: p dict_set_keys)
  qed
  then show ?thesis by (simp add: working_address_def)
qed

lemma working_address_last:
  assumes "j < length as" "length cs = length as" "as ! j \<notin> set busy"
    and "\<forall>m. j < m \<and> m < length as \<longrightarrow> as ! m \<noteq> as ! j"
  shows "map_of (working_address as cs busy) (as ! j) = Some (cs ! j)"
proof -
  have "j < length ps \<Longrightarrow> fst (ps ! j) \<notin> set busy
        \<Longrightarrow> \<forall>m. j < m \<and> m < length ps \<longrightarrow> fst (ps ! m) \<noteq> fst (ps ! j)
        \<Longrightarrow> map_of (foldl (\<lambda>d (a, c). if a \<notin> set busy then dict_set a c d else d) [] ps)
              (fst (ps ! j)) = Some (snd (ps ! j))"
    for ps :: "(i2c_addr \<times> channel) list"
  proof (induction ps rule: rev_induct)
    case Nil
    then show ?case by simp
  next
    case (snoc p ps)
    obtain a c where p: "p = (a, c)" by (cases p)
    show ?case
    proof (cases "j < length ps")
      case True
      have ne: "a \<noteq> fst (ps ! j)"
        using snoc.prems(3) True by (auto simp: p nth_append dest: spec [of _ "length ps"])
      have "\<forall>m. j < m \<and> m < length ps \<longrightarrow> fst (ps ! m) \<noteq> fst (ps ! j)"
      proof (intro allI impI)
        fix m assume m: "j < m \<and> m < length ps"
        then have "fst ((ps @ [p]) ! m) \<noteq> fst ((ps @ [p]) ! j)"
          using snoc.prems(3) by simp
        then show "fst (ps ! m) \<noteq> fst (ps ! j)" using m True by (simp add: nth_append)
      qed
      then have "map_of (foldl (\<lambda>d (a, c). if a \<notin> set busy then dict_set a c d else d) [] ps)
              (fst (ps ! j)) = Some (snd (ps ! j))"
        using snoc.IH True snoc.prems(2) by (simp add: nth_append)
      then show ?thesis using True ne by (simp add: p nth_append map_of_dict_set)
    next
      case False
      then have j: "j = length ps" using snoc.prems(1) by simp
      show ?thesis using snoc.prems(2) by (simp add: j p map_of_dict_set)
    qed
  qed
  from this [of "zip as cs"] assms show ?thesis
    by (simp add: working_address_def)
qed

lemma working_address_distinct_keys:
  assumes "distinct as" "length cs = length as"
  shows "working_address as cs busy = filter (\<lambda>p. fst p \<notin> set busy) (zip as cs)"
proof -
  have "distinct (map fst ps)
        \<Longrightarrow> foldl (\<lambda>d (a, c). if a \<notin> set busy then dict_set a c d else d) [] ps
              = filter (\<lambda>p. fst p \<notin> set busy) ps"
    for ps :: "(i2c_addr \<times> channel) list"
  proof (induction ps rule: rev_induct)
    case Nil
    show ?case by simp
  next
    case (snoc p ps)
    obtain a c where p: "p = (a, c)" by (cases p)
    have "a \<notin> fst ` set (filter (\<lambda>p. fst p \<notin> set busy) ps)"
      using snoc.prems by (auto simp: p)
    then show ?case using snoc by (simp add: p dict_set_fresh)
  qed
  from this [of "zip as cs"] assms show ?thesis
    by (simp add: working_address_def)
qed

section \<open>The two loops and the constructor\<close>

lemma try_reassign_cases:
  "fst (try_reassign env d a) =
     (case temp_exn env a of Some e \<Rightarrow> Some e | None \<Rightarrow> write_exn env a)"
  by (simp add: try_reassign_def split: option.splits)

lemma realloc_loop_completed:
  "realloc_loop env d items tr = (None, tr')
   \<Longrightarrow> tr' = tr @ concat (map (iter_events env d) items)"
proof (induction items arbitrary: tr)
  case Nil
  then show ?case by simp
next
  case (Cons item items)
  obtain a c where item: "item = (a, c)" by (cases item)
  obtain r evs where t: "try_reassign env d a = (r, evs)" by (cases "try_reassign env d a")
  from Cons.prems have en: "enable_exn env a = None"
    by (auto simp: item split: option.splits)
  from Cons.prems have "realloc_loop env d items
      (tr @ [(GPIO_output [c] HIGH, None), (Sleep, None)] @ evs) = (None, tr')"
    by (auto simp: item en t Let_def split: if_splits)
  from Cons.IH [OF this] show ?case
    by (simp add: item iter_events_def t)
qed

lemma realloc_loop_benign:
  assumes "\<forall>a. enable_exn env a = None"
    and "\<forall>a. temp_exn env a = None \<or> temp_exn env a = Some OSError"
    and "\<forall>a. write_exn env a = None \<or> write_exn env a = Some OSError"
  shows "realloc_loop env d items tr = (None, tr @ concat (map (iter_events env d) items))"
proof (induction items arbitrary: tr)
  case Nil
  show ?case by simp
next
  case (Cons item items)
  obtain a c where item: "item = (a, c)" by (cases item)
  obtain r evs where t: "try_reassign env d a = (r, evs)" by (cases "try_reassign env d a")
  have "temp_exn env a = None \<or> temp_exn env a = Some OSError"
    and "write_exn env a = None \<or> write_exn env a = Some OSError"
    using assms(2,3) by blast+
  then have "r = None \<or> r = Some OSError"
    using t by (auto simp: try_reassign_def)
  then show ?case
    using assms(1) Cons.IH by (auto simp: item t iter_events_def)
qed

lemma build_loop_completed:
  "build_loop env i rest sensors tr = (Inr sensors', tr')
   \<Longrightarrow> tr' = tr @ build_events env i rest \<and> sensors' = sensors @ built env i rest"
proof (induction rest arbitrary: i sensors tr)
  case Nil
  then show ?case by simp
next
  case (Cons p rest)
  obtain a off where p: "p = (a, off)" by (cases p)
  show ?case
  proof (cases "sensor_exn env i")
    case None
    with Cons.prems have "build_loop env (Suc i) rest
        (sensors @ [\<lparr>address = a, offset = off\<rparr>])
        (tr @ [(VL6180X a off, sensor_exn env i)]) = (Inr sensors', tr')"
      by (simp add: p)
    from Cons.IH [OF this] show ?thesis by (simp add: p None)
  next
    case (Some e)
    with Cons.prems have e: "e = OSError" by (auto simp: p Let_def split: if_splits)
    with Cons.prems Some have "build_loop env (Suc i) rest sensors
        (tr @ [(VL6180X a off, sensor_exn env i)]) = (Inr sensors', tr')"
      by (simp add: p Let_def)
    from Cons.IH [OF this] show ?thesis by (simp add: p Some)
  qed
qed

lemma build_loop_benign:
  assumes "\<forall>i. sensor_exn env i = None \<or> sensor_exn env i = Some OSError"
  shows "build_loop env i rest sensors tr
           = (Inr (sensors @ built env i rest), tr @ build_events env i rest)"
proof (induction rest arbitrary: i sensors tr)
  case Nil
  show ?case by simp
next
  case (Cons p rest)
  obtain a off where p: "p = (a, off)" by (cases p)
  from assms have "sensor_exn env i = None \<or> sensor_exn env i = Some OSError" by blast
  then show ?case using Cons.IH by (auto simp: p)
qed

lemma built_subseq:
  "subseq (map (\<lambda>s. (address s, offset s)) (built env i rest)) rest"
  by (induction env i rest rule: built.induct) auto

lemma length_build_events: "length (build_events env i rest) = length rest"
  by (induction env i rest rule: build_events.induct) auto

lemma build_events_nth:
  "k < length rest \<Longrightarrow>
   build_events env i rest ! k
     = (VL6180X (fst (rest ! k)) (snd (rest ! k)), sensor_exn env (i + k))"
proof (induction env i rest arbitrary: k rule: build_events.induct)
  case (1 env i)
  then show ?case by simp
next
  case (2 env i a off rest)
  then show ?case by (cases k) auto
qed

lemma built_mem:
  "k < length rest \<Longrightarrow> sensor_exn env (i + k) = None
   \<Longrightarrow> \<lparr>address = fst (rest ! k), offset = snd (rest ! k)\<rparr> \<in> set (built env i rest)"
proof (induction env i rest arbitrary: k rule: built.induct)
  case (1 env i)
  then show ?case by simp
next
  case (2 env i a off rest)
  then show ?case by (cases k) auto
qed

lemma built_address:
  "s \<in> set (built env i rest)
   \<Longrightarrow> \<exists>k < length rest. sensor_exn env (i + k) = None
          \<and> s = \<lparr>address = fst (rest ! k), offset = snd (rest ! k)\<rparr>"
proof (induction env i rest rule: built.induct)
  case (1 env i)
  then show ?case by simp
next
  case (2 env i a off rest)
  from "2.prems" consider
      (hd) "sensor_exn env i = None" "s = \<lparr>address = a, offset = off\<rparr>"
    | (tl) "s \<in> set (built env (Suc i) rest)"
    by (auto split: if_splits)
  then show ?case
  proof cases
    case hd
    then show ?thesis by (intro exI [of _ 0]) simp
  next
    case tl
    from "2.IH" [OF tl] obtain k where "k < length rest" "sensor_exn env (Suc i + k) = None"
      "s = \<lparr>address = fst (rest ! k), offset = snd (rest ! k)\<rparr>" by blast
    then show ?thesis by (intro exI [of _ "Suc k"]) simp
  qed
qed

lemma init_completed:
  assumes "init env ce_gpios new_i2c_addresses offsets mode_gpio d = (Inr sensors, tr)"
  shows "\<exists>offs busy. offsets = Some offs \<and> scan_out env = Inr busy
     \<and> length ce_gpios = length new_i2c_addresses \<and> length offs = length ce_gpios
     \<and> tr = prologue mode_gpio ce_gpios
            @ concat (map (iter_events env d) (working_address new_i2c_addresses ce_gpios busy))
            @ build_events env 0 (zip new_i2c_addresses offs)
     \<and> sensors = built env 0 (zip new_i2c_addresses offs)"
proof -
  from assms obtain offs where offs: "offsets = Some offs"
    by (cases offsets) (auto simp: init_def split: if_splits)
  from assms have len: "length ce_gpios = length new_i2c_addresses" "length offs = length ce_gpios"
    by (auto simp: init_def offs Let_def split: if_splits)
  from assms have ra: "realloc_addr env ce_gpios new_i2c_addresses offs d
      [(GPIO_setmode mode_gpio, None), (GPIO_setup ce_gpios, None),
       (GPIO_output ce_gpios LOW, None)] = (Inr sensors, tr)"
    by (auto simp: init_def offs Let_def split: if_splits option.splits)
  then obtain busy where busy: "scan_out env = Inr busy" and i2c: "i2c_exn env = None"
    by (auto simp: realloc_addr_def split: option.splits sum.splits)
  obtain r tr1 where loop: "realloc_loop env d (working_address new_i2c_addresses ce_gpios busy)
      ([(GPIO_setmode mode_gpio, None), (GPIO_setup ce_gpios, None),
        (GPIO_output ce_gpios LOW, None)] @ [(I2C_open, None), (I2C_scan, None)]) = (r, tr1)"
    by (cases "realloc_loop env d (working_address new_i2c_addresses ce_gpios busy)
      ([(GPIO_setmode mode_gpio, None), (GPIO_setup ce_gpios, None),
        (GPIO_output ce_gpios LOW, None)] @ [(I2C_open, None), (I2C_scan, None)])")
  from ra loop have r: "r = None"
    and bl: "build_loop env 0 (zip new_i2c_addresses offs) [] tr1 = (Inr sensors, tr)"
    by (auto simp: realloc_addr_def busy i2c split: option.splits)
  from realloc_loop_completed [OF loop [unfolded r]]
  have tr1: "tr1 = prologue mode_gpio ce_gpios
       @ concat (map (iter_events env d) (working_address new_i2c_addresses ce_gpios busy))"
    by (simp add: prologue_def)
  from build_loop_completed [OF bl] tr1 offs busy len show ?thesis by simp
qed

lemma init_benign:
  assumes "length ce_gpios = length new_i2c_addresses" "length offs = length ce_gpios"
    and "\<forall>addr \<in> set new_i2c_addresses. 0 \<le> addr \<and> addr \<le> 127"
    and "mode_gpio = GPIO_BCM \<or> mode_gpio = GPIO_BOARD"
    and "0 \<le> d" "d \<le> 127"
    and "transport_failures_only env" "scan_out env = Inr busy"
  shows "init env ce_gpios new_i2c_addresses (Some offs) mode_gpio d =
     (Inr (built env 0 (zip new_i2c_addresses offs)),
      prologue mode_gpio ce_gpios
        @ concat (map (iter_events env d) (working_address new_i2c_addresses ce_gpios busy))
        @ build_events env 0 (zip new_i2c_addresses offs))"
proof -
  from assms(7) have env: "setmode_exn env = None" "setup_exn env = None" "reset_exn env = None"
      "i2c_exn env = None"
    and loop: "\<forall>a. enable_exn env a = None"
      "\<forall>a. temp_exn env a = None \<or> temp_exn env a = Some OSError"
      "\<forall>a. write_exn env a = None \<or> write_exn env a = Some OSError"
    and fin: "\<forall>i. sensor_exn env i = None \<or> sensor_exn env i = Some OSError"
    by (simp_all add: transport_failures_only_def)
  have "realloc_addr env ce_gpios new_i2c_addresses offs d
      [(GPIO_setmode mode_gpio, None), (GPIO_setup ce_gpios, None),
       (GPIO_output ce_gpios LOW, None)] =
     (Inr (built env 0 (zip new_i2c_addresses offs)),
      prologue mode_gpio ce_gpios
        @ concat (map (iter_events env d) (working_address new_i2c_addresses ce_gpios busy))
        @ build_events env 0 (zip new_i2c_addresses offs))"
    by (simp add: realloc_addr_def env assms(8) realloc_loop_benign [OF loop]
          build_loop_benign [OF fin] prologue_def)
  then show ?thesis
    using assms(1-6) by (auto simp: init_def env)
qed

section \<open>The returned collection\<close>

text \<open>
  C5. Whenever the constructor returns, the handles it returns, read as (address, offset)
  pairs, are a subsequence of the input entries \<open>zip new_i2c_addresses offsets\<close>: each comes
  from an input entry and they keep the order of the input. This holds for every device list
  the constructor accepts, so in particular for those with distinct target addresses.
\<close>

theorem init_returns_subsequence:
  assumes "init env ce_gpios new_i2c_addresses (Some offsets) mode_gpio d = (Inr sensors, tr)"
  shows "subseq (map (\<lambda>s. (address s, offset s)) sensors) (zip new_i2c_addresses offsets)"
  using init_completed [OF assms] by (auto simp: built_subseq)

theorem init_returns_subsequence_witness:
  "fst (init open_1_raises [10, 9, 11] [0x30, 0x31, 0x32] (Some [100, 100, 100]) GPIO_BCM 0x29)
     = Inr [\<lparr>address = 0x30, offset = 100\<rparr>, \<lparr>address = 0x32, offset = 100\<rparr>]
   \<and> subseq [(0x30, 100), (0x32, 100)] (zip [0x30, 0x31, 0x32] [100, 100, 100 :: int])"
proof -
  have r: "fst (init open_1_raises [10, 9, 11] [0x30, 0x31, 0x32] (Some [100, 100, 100])
             GPIO_BCM 0x29)
        = Inr [\<lparr>address = 0x30, offset = 100\<rparr>, \<lparr>address = 0x32, offset = 100\<rparr>]"
    by (simp add: run_simps open_1_raises_def all_respond_def)
  then have "init open_1_raises [10, 9, 11] [0x30, 0x31, 0x32] (Some [100, 100, 100])
             GPIO_BCM 0x29
        = (Inr [\<lparr>address = 0x30, offset = 100\<rparr>, \<lparr>address = 0x32, offset = 100\<rparr>],
           snd (init open_1_raises [10, 9, 11] [0x30, 0x31, 0x32] (Some [100, 100, 100])
             GPIO_BCM 0x29))"
    by (metis prod.collapse)
  from init_returns_subsequence [OF this] r show ?thesis by simp
qed

section \<open>The calls of a run\<close>

text \<open>
  Whatever the environment does and wherever a run stops, the log holds only the calls of the
  start, sleeps, handle opens, and for entries of the dictionary of pending devices the
  assertion of the enable line and the write of the address.
\<close>

lemma try_reassign_calls:
  "e \<in> set (snd (try_reassign env d a))
   \<Longrightarrow> fst e = VL6180X d 0 \<or> fst e = Write_8 d SUBORDINATE_ADDR_REG a"
  by (auto simp: try_reassign_def split: option.splits)

lemma realloc_loop_calls:
  "realloc_loop env d items tr = (r, tr') \<Longrightarrow> e \<in> set tr'
   \<Longrightarrow> e \<in> set tr \<or> fst e = Sleep \<or> fst e = VL6180X d 0
       \<or> (\<exists>item \<in> set items. fst e = GPIO_output [snd item] HIGH
              \<or> fst e = Write_8 d SUBORDINATE_ADDR_REG (fst item))"
proof (induction items arbitrary: tr)
  case Nil
  then show ?case by simp
next
  case (Cons item items)
  obtain a c where item: "item = (a, c)" by (cases item)
  obtain r0 evs where t: "try_reassign env d a = (r0, evs)" by (cases "try_reassign env d a")
  have evs: "fst x = VL6180X d 0 \<or> fst x = Write_8 d SUBORDINATE_ADDR_REG a" if "x \<in> set evs" for x
    using try_reassign_calls [of x env d a] that t by simp
  show ?case
  proof (cases "enable_exn env a")
    case (Some ex)
    with Cons.prems show ?thesis by (auto simp: item)
  next
    case None
    let ?tr = "tr @ [(GPIO_output [c] HIGH, None), (Sleep, None)] @ evs"
    have here: "e \<in> set ?tr \<Longrightarrow> ?thesis"
      using evs [of e] by (auto simp: item)
    show ?thesis
    proof (cases "r0 = None \<or> r0 = Some OSError")
      case True
      with Cons.prems None t have "realloc_loop env d items ?tr = (r, tr')"
        by (simp add: item)
      from Cons.IH [OF this Cons.prems(2)] here show ?thesis by auto
    next
      case False
      with Cons.prems None t have "tr' = ?tr" by (auto simp: item)
      with Cons.prems(2) here show ?thesis by simp
    qed
  qed
qed

lemma build_loop_calls:
  "build_loop env i rest sensors tr = (r, tr') \<Longrightarrow> e \<in> set tr'
   \<Longrightarrow> e \<in> set tr \<or> (\<exists>a off. fst e = VL6180X a off)"
proof (induction rest arbitrary: i sensors tr)
  case Nil
  then show ?case by simp
next
  case (Cons p rest)
  obtain a off where p: "p = (a, off)" by (cases p)
  let ?tr = "tr @ [(VL6180X a off, sensor_exn env i)]"
  have here: "e \<in> set ?tr \<Longrightarrow> ?case" by auto
  show ?case
  proof (cases "sensor_exn env i = None \<or> sensor_exn env i = Some OSError")
    case True
    then obtain ss where "build_loop env (Suc i) rest ss ?tr = (r, tr')"
      using Cons.prems(1) by (auto simp: p Let_def)
    from Cons.IH [OF this Cons.prems(2)] here show ?thesis by auto
  next
    case False
    with Cons.prems(1) have "tr' = ?tr" by (auto simp: p Let_def split: option.splits)
    with Cons.prems(2) here show ?thesis by simp
  qed
qed

lemma realloc_addr_calls:
  assumes "realloc_addr env channels i2c_addresses offsets d tr = (r, tr')" "e \<in> set tr'"
  shows "e \<in> set tr \<or> fst e = I2C_open \<or> fst e = I2C_scan \<or> fst e = Sleep
     \<or> (\<exists>a off. fst e = VL6180X a off)
     \<or> (\<exists>busy. scan_out env = Inr busy
          \<and> (\<exists>item \<in> set (working_address i2c_addresses channels busy).
                fst e = GPIO_output [snd item] HIGH
                \<or> fst e = Write_8 d SUBORDINATE_ADDR_REG (fst item)))"
proof (cases "i2c_exn env")
  case (Some ex)
  with assms show ?thesis by (auto simp: realloc_addr_def)
next
  case None
  show ?thesis
  proof (cases "scan_out env")
    case (Inl ex)
    with assms None show ?thesis by (auto simp: realloc_addr_def)
  next
    case (Inr busy)
    let ?tr = "tr @ [(I2C_open, None), (I2C_scan, None)]"
    obtain r1 tr1 where loop:
      "realloc_loop env d (working_address i2c_addresses channels busy) ?tr = (r1, tr1)"
      by (cases "realloc_loop env d (working_address i2c_addresses channels busy) ?tr")
    have in_loop: "x \<in> set tr1 \<Longrightarrow>
        x \<in> set tr \<or> fst x = I2C_open \<or> fst x = I2C_scan \<or> fst x = Sleep
        \<or> fst x = VL6180X d 0
        \<or> (\<exists>item \<in> set (working_address i2c_addresses channels busy).
                fst x = GPIO_output [snd item] HIGH
                \<or> fst x = Write_8 d SUBORDINATE_ADDR_REG (fst item))" for x
      using realloc_loop_calls [OF loop, of x] by auto
    show ?thesis
    proof (cases r1)
      case (Some ex)
      with assms None Inr loop have "tr' = tr1" by (simp add: realloc_addr_def)
      with in_loop [of e] assms(2) Inr show ?thesis by auto
    next
      case None': None
      with assms None Inr loop
      have "build_loop env 0 (zip i2c_addresses offsets) [] tr1 = (r, tr')"
        by (simp add: realloc_addr_def)
      from build_loop_calls [OF this assms(2)] in_loop [of e] Inr show ?thesis by auto
    qed
  qed
qed

lemma init_calls:
  assumes "e \<in> set (snd (init env ce_gpios new_i2c_addresses offsets mode_gpio d))"
  shows "fst e = GPIO_setmode mode_gpio \<or> fst e = GPIO_setup ce_gpios
     \<or> fst e = GPIO_output ce_gpios LOW
     \<or> fst e = I2C_open \<or> fst e = I2C_scan \<or> fst e = Sleep
     \<or> (\<exists>a off. fst e = VL6180X a off)
     \<or> (\<exists>busy. scan_out env = Inr busy
          \<and> (\<exists>item \<in> set (working_address new_i2c_addresses ce_gpios busy).
                fst e = GPIO_output [snd item] HIGH
                \<or> fst e = Write_8 d SUBORDINATE_ADDR_REG (fst item)))"
proof (cases "\<exists>offs. snd (init env ce_gpios new_i2c_addresses offsets mode_gpio d)
      = snd (realloc_addr env ce_gpios new_i2c_addresses offs d
          [(GPIO_setmode mode_gpio, None), (GPIO_setup ce_gpios, None),
           (GPIO_output ce_gpios LOW, None)])")
  case True
  then obtain offs where "e \<in> set (snd (realloc_addr env ce_gpios new_i2c_addresses offs d
          [(GPIO_setmode mode_gpio, None), (GPIO_setup ce_gpios, None),
           (GPIO_output ce_gpios LOW, None)]))"
    using assms by auto
  from realloc_addr_calls [OF prod.collapse [symmetric] this] show ?thesis by auto
next
  case False
  then have "snd (init env ce_gpios new_i2c_addresses offsets mode_gpio d)
      \<in> {[], [(GPIO_setmode mode_gpio, setmode_exn env)],
          [(GPIO_setmode mode_gpio, None), (GPIO_setup ce_gpios, setup_exn env)],
          [(GPIO_setmode mode_gpio, None), (GPIO_setup ce_gpios, None),
           (GPIO_output ce_gpios LOW, reset_exn env)]}"
    by (cases offsets) (auto simp: init_def Let_def split: option.splits)
  with assms show ?thesis by auto
qed

lemma zip_distinct_snd:
  assumes "(a, cs ! i) \<in> set (zip as cs)" "distinct cs" "i < length cs"
  shows "i < length as \<and> a = as ! i"
proof -
  from assms(1) obtain k where k: "k < length as" "k < length cs" "as ! k = a" "cs ! k = cs ! i"
    by (auto simp: set_zip)
  with assms(2,3) have "k = i" by (simp add: nth_eq_iff_index_eq)
  with k show ?thesis by simp
qed

lemma high_calls_of_init:
  assumes "(GPIO_output cs HIGH, oc) \<in> set (snd (init env ce_gpios new_i2c_addresses offsets mode_gpio d))"
    and "scan_out env = Inr busy"
  shows "\<exists>item \<in> set (working_address new_i2c_addresses ce_gpios busy). cs = [snd item]"
  using init_calls [OF assms(1)] assms(2) by auto

lemma write_calls_of_init:
  assumes "(Write_8 h reg v, oc) \<in> set (snd (init env ce_gpios new_i2c_addresses offsets mode_gpio d))"
    and "scan_out env = Inr busy"
  shows "v \<in> fst ` set (working_address new_i2c_addresses ce_gpios busy)"
  using init_calls [OF assms(1)] assms(2) by auto

section \<open>Devices that are already live\<close>

text \<open>
  C4. Let the bus scan return, let device \<open>i\<close> have a target address that the scan reports, and
  let the enable lines be pairwise distinct (each device has a line of its own). Then, however
  the run ends, no register write carries that address and no \<open>GPIO.output(..., HIGH)\<close> names
  the enable line of device \<open>i\<close>. When the constructor returns, the log ends with the handle
  opens of the final loop, the one at position \<open>i\<close> is made at the target address of device
  \<open>i\<close> with its offset, and if it succeeds that handle is in the returned collection.
\<close>

theorem live_device_not_resequenced:
  assumes "scan_out env = Inr busy"
    and "i < length new_i2c_addresses" "length ce_gpios = length new_i2c_addresses"
    and "new_i2c_addresses ! i \<in> set busy"
    and "distinct ce_gpios"
    and "init env ce_gpios new_i2c_addresses offsets mode_gpio d = (r, tr)"
  shows "(\<forall>h reg oc. (Write_8 h reg (new_i2c_addresses ! i), oc) \<notin> set tr)
     \<and> (\<forall>cs oc. (GPIO_output cs HIGH, oc) \<in> set tr \<longrightarrow> ce_gpios ! i \<notin> set cs)
     \<and> (\<forall>sensors. r = Inr sensors \<longrightarrow>
          (\<exists>offs pre. offsets = Some offs
             \<and> tr = pre @ build_events env 0 (zip new_i2c_addresses offs)
             \<and> build_events env 0 (zip new_i2c_addresses offs) ! i
                 = (VL6180X (new_i2c_addresses ! i) (offs ! i), sensor_exn env i)
             \<and> (sensor_exn env i = None \<longrightarrow>
                  \<lparr>address = new_i2c_addresses ! i, offset = offs ! i\<rparr> \<in> set sensors)))"
proof (intro conjI allI impI)
  fix h reg oc
  show "(Write_8 h reg (new_i2c_addresses ! i), oc) \<notin> set tr"
  proof
    assume "(Write_8 h reg (new_i2c_addresses ! i), oc) \<in> set tr"
    then have "new_i2c_addresses ! i \<in> fst ` set (working_address new_i2c_addresses ce_gpios busy)"
      using write_calls_of_init [of h reg "new_i2c_addresses ! i" oc env ce_gpios
          new_i2c_addresses offsets mode_gpio d busy] assms(1,6) by simp
    with working_address_subset [of new_i2c_addresses ce_gpios busy] assms(4)
    show False by auto
  qed
next
  fix cs oc
  assume "(GPIO_output cs HIGH, oc) \<in> set tr"
  then obtain a c where item: "(a, c) \<in> set (working_address new_i2c_addresses ce_gpios busy)"
    and cs: "cs = [c]"
    using high_calls_of_init [of cs oc env ce_gpios new_i2c_addresses offsets mode_gpio d busy]
      assms(1,6) by auto
  from item working_address_subset [of new_i2c_addresses ce_gpios busy]
  have z: "(a, c) \<in> set (zip new_i2c_addresses ce_gpios)" and a: "a \<notin> set busy" by auto
  show "ce_gpios ! i \<notin> set cs"
  proof
    assume "ce_gpios ! i \<in> set cs"
    then have "c = ce_gpios ! i" by (simp add: cs)
    with z zip_distinct_snd [of a ce_gpios i new_i2c_addresses] assms(2,3,5)
    have "a = new_i2c_addresses ! i" by simp
    with a assms(4) show False by simp
  qed
next
  fix sensors
  assume "r = Inr sensors"
  with assms(6) have "init env ce_gpios new_i2c_addresses offsets mode_gpio d = (Inr sensors, tr)"
    by simp
  from init_completed [OF this] obtain offs busy' where c: "offsets = Some offs"
    "length offs = length ce_gpios"
    "tr = prologue mode_gpio ce_gpios
          @ concat (map (iter_events env d) (working_address new_i2c_addresses ce_gpios busy'))
          @ build_events env 0 (zip new_i2c_addresses offs)"
    "sensors = built env 0 (zip new_i2c_addresses offs)"
    by blast
  have i: "i < length (zip new_i2c_addresses offs)" using assms(2,3) c(2) by simp
  have "build_events env 0 (zip new_i2c_addresses offs) ! i
          = (VL6180X (new_i2c_addresses ! i) (offs ! i), sensor_exn env i)"
    using build_events_nth [OF i, of env 0] i by simp
  moreover have "sensor_exn env i = None \<longrightarrow>
      \<lparr>address = new_i2c_addresses ! i, offset = offs ! i\<rparr> \<in> set sensors"
    using built_mem [OF i, of env 0] i c(4) by simp
  ultimately show "\<exists>offs pre. offsets = Some offs
             \<and> tr = pre @ build_events env 0 (zip new_i2c_addresses offs)
             \<and> build_events env 0 (zip new_i2c_addresses offs) ! i
                 = (VL6180X (new_i2c_addresses ! i) (offs ! i), sensor_exn env i)
             \<and> (sensor_exn env i = None \<longrightarrow>
                  \<lparr>address = new_i2c_addresses ! i, offset = offs ! i\<rparr> \<in> set sensors)"
    using c(1,3) by (metis append.assoc)
qed

theorem live_device_not_resequenced_witness:
  "(\<forall>h reg oc. (Write_8 h reg 0x31, oc)
       \<notin> set (snd (init live_0x31 [10, 9, 11] [0x30, 0x31, 0x32] (Some [1, 2, 3]) GPIO_BCM 0x29)))
   \<and> (GPIO_output [9] HIGH, None)
       \<notin> set (snd (init live_0x31 [10, 9, 11] [0x30, 0x31, 0x32] (Some [1, 2, 3]) GPIO_BCM 0x29))
   \<and> (VL6180X 0x31 2, None)
       \<in> set (snd (init live_0x31 [10, 9, 11] [0x30, 0x31, 0x32] (Some [1, 2, 3]) GPIO_BCM 0x29))
   \<and> fst (init live_0x31 [10, 9, 11] [0x30, 0x31, 0x32] (Some [1, 2, 3]) GPIO_BCM 0x29)
       = Inr [\<lparr>address = 0x30, offset = 1\<rparr>, \<lparr>address = 0x31, offset = 2\<rparr>,
              \<lparr>address = 0x32, offset = 3\<rparr>]"
proof -
  let ?run = "init live_0x31 [10, 9, 11] [0x30, 0x31, 0x32] (Some [1, 2, 3]) GPIO_BCM 0x29"
  have h: "scan_out live_0x31 = Inr [0x31]" "1 < length [0x30, 0x31, 0x32 :: int]"
    "length [10, 9, 11 :: int] = length [0x30, 0x31, 0x32 :: int]"
    "[0x30, 0x31, 0x32 :: int] ! 1 \<in> set [0x31]" "distinct [10, 9, 11 :: int]"
    by (simp_all add: live_0x31_def all_respond_def)
  note t = live_device_not_resequenced [OF h prod.collapse [symmetric],
      of "Some [1, 2, 3]" GPIO_BCM "0x29"]
  have r: "fst ?run = Inr [\<lparr>address = 0x30, offset = 1\<rparr>, \<lparr>address = 0x31, offset = 2\<rparr>,
              \<lparr>address = 0x32, offset = 3\<rparr>]"
    by (simp add: run_simps live_0x31_def all_respond_def)
  from t have 1: "\<forall>h reg oc. (Write_8 h reg 0x31, oc) \<notin> set (snd ?run)" by simp
  from t have "\<forall>cs oc. (GPIO_output cs HIGH, oc) \<in> set (snd ?run)
      \<longrightarrow> [10, 9, 11 :: int] ! 1 \<notin> set cs" by blast
  from this [rule_format, of "[9]" None]
  have 2: "(GPIO_output [9] HIGH, None) \<notin> set (snd ?run)" by auto
  from t r obtain offs pre where o: "Some [1, 2, 3] = Some offs"
    "snd ?run = pre @ build_events live_0x31 0 (zip [0x30, 0x31, 0x32] offs)"
    "build_events live_0x31 0 (zip [0x30, 0x31, 0x32] offs) ! 1
       = (VL6180X ([0x30, 0x31, 0x32] ! 1) (offs ! 1), sensor_exn live_0x31 1)"
    by blast
  from o(1) have oe: "offs = [1, 2, 3]" by simp
  have "sensor_exn live_0x31 1 = None" by (simp add: live_0x31_def all_respond_def)
  with o(3) have "build_events live_0x31 0 (zip [0x30, 0x31, 0x32] [1, 2, 3]) ! 1
       = (VL6180X 0x31 2, None)" unfolding oe by simp
  moreover have "1 < length (build_events live_0x31 0 (zip [0x30, 0x31, 0x32 :: int] [1, 2, 3 :: int]))"
    by (simp add: length_build_events)
  ultimately have "(VL6180X 0x31 2, None)
      \<in> set (build_events live_0x31 0 (zip [0x30, 0x31, 0x32] [1, 2, 3]))"
    by (metis nth_mem)
  with o(2) have 3: "(VL6180X 0x31 2, None) \<in> set (snd ?run)" unfolding oe by simp
  from 1 2 3 r show ?thesis by simp
qed

section \<open>Devices that share a target address\<close>

lemma count_writes_iter:
  "count_list (map fst (iter_events env d item)) (Write_8 d SUBORDINATE_ADDR_REG a)
     = (if fst item = a \<and> temp_exn env a = None then 1 else 0)"
  by (auto simp: iter_events_def try_reassign_def split: option.splits)

lemma count_writes_loop:
  "distinct (map fst items) \<Longrightarrow>
   count_list (map fst (concat (map (iter_events env d) items)))
       (Write_8 d SUBORDINATE_ADDR_REG a)
     = (if a \<in> fst ` set items \<and> temp_exn env a = None then 1 else 0)"
proof (induction items)
  case Nil
  show ?case by simp
next
  case (Cons item items)
  then show ?case
    using count_writes_iter [of env d item a] by (auto simp: image_iff)
qed

lemma count_writes_build:
  "count_list (map fst (build_events env i rest)) (Write_8 h reg v) = 0"
  by (induction env i rest rule: build_events.induct) auto

text \<open>
  C9. Let devices \<open>i < j\<close> share a target address that the scan does not report, \<open>j\<close> being the
  last device with that address, and let the enable lines be pairwise distinct. In a run that
  returns, the enable line of device \<open>j\<close> is asserted and the line of device \<open>i\<close> never is; the
  address is written at most once, namely once when the temporary handle of that iteration
  opens and not at all when that open raises \<open>OSError\<close>; and the log ends with one handle
  open for each input entry.
\<close>

theorem duplicate_target_last_device_sequenced:
  assumes "init env ce_gpios new_i2c_addresses offsets mode_gpio d = (Inr sensors, tr)"
    and "scan_out env = Inr busy"
    and "distinct ce_gpios"
    and "i < j" "j < length new_i2c_addresses"
    and "new_i2c_addresses ! i = new_i2c_addresses ! j"
    and "new_i2c_addresses ! j \<notin> set busy"
    and "\<forall>m. j < m \<and> m < length new_i2c_addresses
            \<longrightarrow> new_i2c_addresses ! m \<noteq> new_i2c_addresses ! j"
  shows "(GPIO_output [ce_gpios ! j] HIGH, None) \<in> set tr
     \<and> (\<forall>cs oc. (GPIO_output cs HIGH, oc) \<in> set tr \<longrightarrow> ce_gpios ! i \<notin> set cs)
     \<and> count_list (map fst tr) (Write_8 d SUBORDINATE_ADDR_REG (new_i2c_addresses ! j))
         = (if temp_exn env (new_i2c_addresses ! j) = None then 1 else 0)
     \<and> (\<exists>offs pre. offsets = Some offs
            \<and> tr = pre @ build_events env 0 (zip new_i2c_addresses offs)
            \<and> length (build_events env 0 (zip new_i2c_addresses offs))
                = length new_i2c_addresses)"
proof -
  let ?wa = "working_address new_i2c_addresses ce_gpios busy"
  let ?a = "new_i2c_addresses ! j"
  from init_completed [OF assms(1)] assms(2) obtain offs where c: "offsets = Some offs"
    "length ce_gpios = length new_i2c_addresses" "length offs = length ce_gpios"
    "tr = prologue mode_gpio ce_gpios @ concat (map (iter_events env d) ?wa)
          @ build_events env 0 (zip new_i2c_addresses offs)"
    by auto
  have last: "map_of ?wa ?a = Some (ce_gpios ! j)"
    using working_address_last [OF assms(5) c(2) assms(7,8)] .
  then have mem: "(?a, ce_gpios ! j) \<in> set ?wa" by (rule map_of_SomeD)
  have "(GPIO_output [ce_gpios ! j] HIGH, None) \<in> set (iter_events env d (?a, ce_gpios ! j))"
    by (simp add: iter_events_def)
  with mem have 1: "(GPIO_output [ce_gpios ! j] HIGH, None) \<in> set tr"
    unfolding c(4) by auto
  have 2: "ce_gpios ! i \<notin> set cs" if "(GPIO_output cs HIGH, oc) \<in> set tr" for cs oc
  proof
    assume in_cs: "ce_gpios ! i \<in> set cs"
    from that obtain a c where item: "(a, c) \<in> set ?wa" and cs: "cs = [c]"
      using high_calls_of_init [of cs oc env ce_gpios new_i2c_addresses offsets mode_gpio d busy]
        assms(1,2) by auto
    from in_cs cs have ci: "c = ce_gpios ! i" by simp
    from item working_address_subset [of new_i2c_addresses ce_gpios busy]
    have "(a, c) \<in> set (zip new_i2c_addresses ce_gpios)" by auto
    with ci zip_distinct_snd [of a ce_gpios i new_i2c_addresses] assms(3,4,5) c(2)
    have "a = new_i2c_addresses ! i" by simp
    with assms(6) item have "map_of ?wa ?a = Some c"
      using working_address_distinct [of new_i2c_addresses ce_gpios busy] by simp
    with last ci have "ce_gpios ! i = ce_gpios ! j" by simp
    with assms(3,4,5) c(2) show False by (simp add: nth_eq_iff_index_eq)
  qed
  have "?a \<in> fst ` set ?wa" using mem by force
  then have 3: "count_list (map fst tr) (Write_8 d SUBORDINATE_ADDR_REG ?a)
         = (if temp_exn env ?a = None then 1 else 0)"
    unfolding c(4)
    using count_writes_loop [OF working_address_distinct, of env d new_i2c_addresses ce_gpios busy ?a]
    by (simp add: count_writes_build prologue_def)
  have 4: "\<exists>offs pre. offsets = Some offs
            \<and> tr = pre @ build_events env 0 (zip new_i2c_addresses offs)
            \<and> length (build_events env 0 (zip new_i2c_addresses offs))
                = length new_i2c_addresses"
    using c by (intro exI [of _ offs]
        exI [of _ "prologue mode_gpio ce_gpios @ concat (map (iter_events env d) ?wa)"])
      (simp add: length_build_events)
  from 1 2 3 4 show ?thesis by blast
qed

theorem duplicate_target_last_device_sequenced_witness:
  "(GPIO_output [11] HIGH, None)
       \<in> set (snd (init all_respond [10, 9, 11] [0x30, 0x31, 0x30] (Some [1, 2, 3]) GPIO_BCM 0x29))
   \<and> (GPIO_output [10] HIGH, None)
       \<notin> set (snd (init all_respond [10, 9, 11] [0x30, 0x31, 0x30] (Some [1, 2, 3]) GPIO_BCM 0x29))
   \<and> count_list
        (map fst (snd (init all_respond [10, 9, 11] [0x30, 0x31, 0x30] (Some [1, 2, 3])
           GPIO_BCM 0x29)))
        (Write_8 0x29 SUBORDINATE_ADDR_REG 0x30) = 1
   \<and> fst (init all_respond [10, 9, 11] [0x30, 0x31, 0x30] (Some [1, 2, 3]) GPIO_BCM 0x29)
       = Inr [\<lparr>address = 0x30, offset = 1\<rparr>, \<lparr>address = 0x31, offset = 2\<rparr>,
              \<lparr>address = 0x30, offset = 3\<rparr>]"
proof -
  let ?run = "init all_respond [10, 9, 11] [0x30, 0x31, 0x30] (Some [1, 2, 3]) GPIO_BCM 0x29"
  have r: "fst ?run = Inr [\<lparr>address = 0x30, offset = 1\<rparr>, \<lparr>address = 0x31, offset = 2\<rparr>,
              \<lparr>address = 0x30, offset = 3\<rparr>]"
    by (simp add: run_simps all_respond_def)
  then have run: "?run = (Inr [\<lparr>address = 0x30, offset = 1\<rparr>, \<lparr>address = 0x31, offset = 2\<rparr>,
              \<lparr>address = 0x30, offset = 3\<rparr>], snd ?run)"
    by (metis prod.collapse)
  have h: "scan_out all_respond = Inr []" "distinct [10, 9, 11 :: int]" "(0 :: nat) < 2"
    "2 < length [0x30, 0x31, 0x30 :: int]"
    "[0x30, 0x31, 0x30 :: int] ! 0 = [0x30, 0x31, 0x30] ! 2"
    "[0x30, 0x31, 0x30 :: int] ! 2 \<notin> set []"
    "\<forall>m. 2 < m \<and> m < length [0x30, 0x31, 0x30 :: int]
       \<longrightarrow> [0x30, 0x31, 0x30 :: int] ! m \<noteq> [0x30, 0x31, 0x30] ! 2"
    by (simp_all add: all_respond_def)
  note t = duplicate_target_last_device_sequenced [OF run h]
  from t have 1: "(GPIO_output [11] HIGH, None) \<in> set (snd ?run)" by simp
  from t have "\<forall>cs oc. (GPIO_output cs HIGH, oc) \<in> set (snd ?run)
      \<longrightarrow> [10, 9, 11 :: int] ! 0 \<notin> set cs" by blast
  from this [rule_format, of "[10]" None]
  have 2: "(GPIO_output [10] HIGH, None) \<notin> set (snd ?run)" by auto
  have "temp_exn all_respond 0x30 = None" by (simp add: all_respond_def)
  with t have 3: "count_list (map fst (snd ?run)) (Write_8 0x29 SUBORDINATE_ADDR_REG 0x30) = 1"
    by simp
  from 1 2 3 r show ?thesis by simp
qed

section \<open>One device at a time\<close>

lemma asserted_snoc: "asserted (tr @ [e]) c = drive c (asserted tr c) e"
  by (simp add: asserted_def)

lemma reassigned_snoc: "reassigned (tr @ [e]) a \<longleftrightarrow> reassigned tr a \<or> is_reassign a e"
  by (auto simp: reassigned_def)

lemma drive_not_high: "\<not> is_high e \<Longrightarrow> drive c b e \<Longrightarrow> b"
  by (induction c b e rule: drive.induct) (auto split: if_splits elim: is_high.elims)

lemma length_filter_mono:
  "(\<forall>x \<in> set xs. P x \<longrightarrow> Q x) \<Longrightarrow> length (filter P xs) \<le> length (filter Q xs)"
  by (induction xs) auto

lemma powered_unassigned_not_high:
  assumes "\<not> is_high e"
  shows "length (powered_unassigned as cs (tr @ [e])) \<le> length (powered_unassigned as cs tr)"
  unfolding powered_unassigned_def
  by (rule length_filter_mono)
     (auto simp: asserted_snoc reassigned_snoc dest: drive_not_high [OF assms])

lemma one_at_a_time_snoc:
  "one_at_a_time as cs (tr @ [e]) \<longleftrightarrow>
     one_at_a_time as cs tr \<and> length (powered_unassigned as cs (tr @ [e])) \<le> 1"
  by (auto simp: one_at_a_time_def prefix_snoc)

lemma one_at_a_time_not_high:
  assumes "one_at_a_time as cs tr" "\<not> is_high e"
  shows "one_at_a_time as cs (tr @ [e])"
proof -
  have "length (powered_unassigned as cs tr) \<le> 1"
    using assms(1) by (simp add: one_at_a_time_def)
  with powered_unassigned_not_high [OF assms(2), of as cs tr]
  show ?thesis using assms(1) by (simp add: one_at_a_time_snoc)
qed

lemma one_at_a_time_append:
  "one_at_a_time as cs tr \<Longrightarrow> \<forall>e \<in> set evs. \<not> is_high e
   \<Longrightarrow> one_at_a_time as cs (tr @ evs)"
proof (induction evs arbitrary: tr)
  case Nil
  then show ?case by simp
next
  case (Cons e evs)
  from Cons.prems have "one_at_a_time as cs (tr @ [e])"
    by (simp add: one_at_a_time_not_high)
  from Cons.IH [OF this] Cons.prems(2) show ?case by simp
qed

lemma settled_not_high:
  assumes "settled as cs tr" "\<not> is_high e"
  shows "settled as cs (tr @ [e])"
  using assms(1) unfolding settled_def
  by (auto simp: asserted_snoc reassigned_snoc dest: drive_not_high [OF assms(2)])

lemma filter_snd_distinct:
  "distinct (map snd ps) \<Longrightarrow> length (filter (\<lambda>p. snd p = c) ps) \<le> 1"
proof (induction ps)
  case Nil
  show ?case by simp
next
  case (Cons p ps)
  then have "snd p = c \<Longrightarrow> filter (\<lambda>p. snd p = c) ps = []"
    by (auto simp: filter_empty_conv image_iff)
  with Cons show ?case by auto
qed

lemma distinct_snd_zip: "distinct cs \<Longrightarrow> distinct (map snd (zip as cs))"
  by (simp add: map_snd_zip_take)

lemma enable_from_settled:
  assumes "settled as cs tr" "distinct cs"
  shows "length (powered_unassigned as cs (tr @ [(GPIO_output [c] HIGH, None)])) \<le> 1"
proof -
  have "length (powered_unassigned as cs (tr @ [(GPIO_output [c] HIGH, None)]))
          \<le> length (filter (\<lambda>p. snd p = c) (zip as cs))"
    unfolding powered_unassigned_def
    using assms(1)
    by (intro length_filter_mono) (auto simp: settled_def asserted_snoc reassigned_snoc)
  also have "\<dots> \<le> 1"
    using filter_snd_distinct [OF distinct_snd_zip [OF assms(2)]] .
  finally show ?thesis .
qed

lemma zip_snd_unique:
  "distinct cs \<Longrightarrow> (a, c) \<in> set (zip as cs) \<Longrightarrow> (a', c) \<in> set (zip as cs) \<Longrightarrow> a' = a"
  by (metis distinct_snd_zip eq_key_imp_eq_value map_of_eq_Some_iff swap_simp
      distinct_map inj_on_def snd_conv fst_conv)

lemma asserted_append: "asserted (tr @ evs) c = foldl (drive c) (asserted tr c) evs"
  by (simp add: asserted_def)

lemma reassigned_append:
  "reassigned (tr @ evs) a \<longleftrightarrow> reassigned tr a \<or> (\<exists>e \<in> set evs. is_reassign a e)"
  by (auto simp: reassigned_def)

lemma iteration_keeps_one_at_a_time:
  assumes "settled as cs tr" "one_at_a_time as cs tr" "distinct cs"
    and "(a, c) \<in> set (zip as cs)"
  shows "settled as cs (tr @ [(GPIO_output [c] HIGH, None), (Sleep, None),
           (VL6180X d 0, None), (Write_8 d SUBORDINATE_ADDR_REG a, None)])"
    and "one_at_a_time as cs (tr @ [(GPIO_output [c] HIGH, None), (Sleep, None),
           (VL6180X d 0, None), (Write_8 d SUBORDINATE_ADDR_REG a, None)])"
proof -
  let ?evs = "[(GPIO_output [c] HIGH, None), (Sleep, None),
           (VL6180X d 0, None), (Write_8 d SUBORDINATE_ADDR_REG a, None)]"
  let ?tr1 = "tr @ [(GPIO_output [c] HIGH, None)]"
  have "one_at_a_time as cs ?tr1"
    using assms(2) enable_from_settled [OF assms(1,3)] by (simp add: one_at_a_time_snoc)
  from one_at_a_time_append [OF this,
      of "[(Sleep, None), (VL6180X d 0, None), (Write_8 d SUBORDINATE_ADDR_REG a, None)]"]
  show "one_at_a_time as cs (tr @ ?evs)"
    by simp
  show "settled as cs (tr @ ?evs)"
    unfolding settled_def
  proof (intro ballI, clarify)
    fix a' c'
    assume mem: "(a', c') \<in> set (zip as cs)" and on: "asserted (tr @ ?evs) c'"
    from on have "c' = c \<or> asserted tr c'"
      by (auto simp: asserted_append split: if_splits)
    then show "reassigned (tr @ ?evs) a'"
    proof
      assume "c' = c"
      with zip_snd_unique [OF assms(3,4)] mem have "a' = a" by simp
      then show ?thesis by (simp add: reassigned_append)
    next
      assume "asserted tr c'"
      with assms(1) mem have "reassigned tr a'" by (auto simp: settled_def)
      then show ?thesis by (simp add: reassigned_append)
    qed
  qed
qed

lemma realloc_loop_one_at_a_time:
  assumes "distinct cs"
    and "\<forall>a \<in> set as. temp_exn env a = None \<and> write_exn env a = None"
  shows "realloc_loop env d items tr = (r, tr') \<Longrightarrow> set items \<subseteq> set (zip as cs)
     \<Longrightarrow> settled as cs tr \<Longrightarrow> one_at_a_time as cs tr
     \<Longrightarrow> one_at_a_time as cs tr'"
proof (induction items arbitrary: tr)
  case Nil
  then show ?case by simp
next
  case (Cons item items)
  obtain a c where item: "item = (a, c)" by (cases item)
  from Cons.prems(2) have mem: "(a, c) \<in> set (zip as cs)" by (simp add: item)
  then have "a \<in> set as" by (rule set_zip_leftD)
  with assms(2) have t: "try_reassign env d a
      = (None, [(VL6180X d 0, None), (Write_8 d SUBORDINATE_ADDR_REG a, None)])"
    by (simp add: try_reassign_def)
  show ?case
  proof (cases "enable_exn env a")
    case (Some ex)
    with Cons.prems(1) have "tr' = tr @ [(GPIO_output [c] HIGH, Some ex)]"
      by (auto simp: item)
    with Cons.prems(4) show ?thesis by (simp add: one_at_a_time_not_high)
  next
    case None
    let ?tr = "tr @ [(GPIO_output [c] HIGH, None), (Sleep, None),
           (VL6180X d 0, None), (Write_8 d SUBORDINATE_ADDR_REG a, None)]"
    from Cons.prems(1) None t have "realloc_loop env d items ?tr = (r, tr')"
      by (simp add: item)
    moreover have "set items \<subseteq> set (zip as cs)" using Cons.prems(2) by simp
    ultimately show ?thesis
      using Cons.IH iteration_keeps_one_at_a_time [OF Cons.prems(3,4) assms(1) mem, of d]
      by blast
  qed
qed

lemma build_loop_one_at_a_time:
  "build_loop env i rest sensors tr = (r, tr') \<Longrightarrow> one_at_a_time as cs tr
   \<Longrightarrow> one_at_a_time as cs tr'"
proof (induction rest arbitrary: i sensors tr)
  case Nil
  then show ?case by simp
next
  case (Cons p rest)
  obtain a off where p: "p = (a, off)" by (cases p)
  let ?tr = "tr @ [(VL6180X a off, sensor_exn env i)]"
  have one: "one_at_a_time as cs ?tr"
    using Cons.prems(2) by (simp add: one_at_a_time_not_high)
  show ?case
  proof (cases "sensor_exn env i = None \<or> sensor_exn env i = Some OSError")
    case True
    then obtain ss where "build_loop env (Suc i) rest ss ?tr = (r, tr')"
      using Cons.prems(1) by (auto simp: p Let_def)
    from Cons.IH [OF this one] show ?thesis .
  next
    case False
    with Cons.prems(1) have "tr' = ?tr" by (auto simp: p Let_def split: option.splits)
    with one show ?thesis by simp
  qed
qed

lemma settled_append:
  "settled as cs tr \<Longrightarrow> \<forall>e \<in> set evs. \<not> is_high e \<Longrightarrow> settled as cs (tr @ evs)"
proof (induction evs arbitrary: tr)
  case Nil
  then show ?case by simp
next
  case (Cons e evs)
  from Cons.prems have "settled as cs (tr @ [e])" by (simp add: settled_not_high)
  from Cons.IH [OF this] Cons.prems(2) show ?case by simp
qed

lemma settled_Nil: "settled as cs []"
  by (simp add: settled_def asserted_def)

lemma one_at_a_time_Nil: "one_at_a_time as cs []"
  by (simp add: one_at_a_time_def powered_unassigned_def asserted_def)

lemma quiet_start:
  "\<forall>e \<in> set evs. \<not> is_high e \<Longrightarrow> settled as cs evs \<and> one_at_a_time as cs evs"
  using settled_append [OF settled_Nil, of evs as cs]
    one_at_a_time_append [OF one_at_a_time_Nil, of evs as cs] by simp

lemma realloc_addr_one_at_a_time:
  assumes "distinct channels"
    and "\<forall>a \<in> set i2c_addresses. temp_exn env a = None \<and> write_exn env a = None"
    and "settled i2c_addresses channels tr" "one_at_a_time i2c_addresses channels tr"
    and "realloc_addr env channels i2c_addresses offsets d tr = (r, tr')"
  shows "one_at_a_time i2c_addresses channels tr'"
proof (cases "i2c_exn env")
  case (Some ex)
  with assms(5) have "tr' = tr @ [(I2C_open, Some ex)]" by (simp add: realloc_addr_def)
  with assms(4) show ?thesis by (simp add: one_at_a_time_not_high)
next
  case None
  show ?thesis
  proof (cases "scan_out env")
    case (Inl ex)
    with assms(5) None have "tr' = tr @ [(I2C_open, None), (I2C_scan, Some ex)]"
      by (simp add: realloc_addr_def)
    with one_at_a_time_append [OF assms(4), of "[(I2C_open, None), (I2C_scan, Some ex)]"]
    show ?thesis by simp
  next
    case (Inr busy)
    let ?tr = "tr @ [(I2C_open, None), (I2C_scan, None)]"
    have s: "settled i2c_addresses channels ?tr"
      using settled_append [OF assms(3), of "[(I2C_open, None), (I2C_scan, None)]"] by simp
    have o: "one_at_a_time i2c_addresses channels ?tr"
      using one_at_a_time_append [OF assms(4), of "[(I2C_open, None), (I2C_scan, None)]"]
      by simp
    obtain r1 tr1 where loop:
      "realloc_loop env d (working_address i2c_addresses channels busy) ?tr = (r1, tr1)"
      by (cases "realloc_loop env d (working_address i2c_addresses channels busy) ?tr")
    have sub: "set (working_address i2c_addresses channels busy)
        \<subseteq> set (zip i2c_addresses channels)"
      using working_address_subset [of i2c_addresses channels busy] by auto
    have o1: "one_at_a_time i2c_addresses channels tr1"
      using realloc_loop_one_at_a_time [OF assms(1,2) loop sub s o] .
    show ?thesis
    proof (cases r1)
      case (Some ex)
      with assms(5) None Inr loop have "tr' = tr1" by (simp add: realloc_addr_def)
      with o1 show ?thesis by simp
    next
      case None': None
      with assms(5) None Inr loop
      have "build_loop env 0 (zip i2c_addresses offsets) [] tr1 = (r, tr')"
        by (simp add: realloc_addr_def)
      from build_loop_one_at_a_time [OF this o1] show ?thesis .
    qed
  qed
qed

lemma init_one_at_a_time:
  assumes "distinct ce_gpios"
    and "\<forall>a \<in> set new_i2c_addresses. temp_exn env a = None \<and> write_exn env a = None"
  shows "one_at_a_time new_i2c_addresses ce_gpios
           (snd (init env ce_gpios new_i2c_addresses offsets mode_gpio d))"
proof (cases "\<exists>offs. snd (init env ce_gpios new_i2c_addresses offsets mode_gpio d)
      = snd (realloc_addr env ce_gpios new_i2c_addresses offs d
          [(GPIO_setmode mode_gpio, None), (GPIO_setup ce_gpios, None),
           (GPIO_output ce_gpios LOW, None)])")
  case True
  then obtain offs where eq: "snd (init env ce_gpios new_i2c_addresses offsets mode_gpio d)
      = snd (realloc_addr env ce_gpios new_i2c_addresses offs d
          [(GPIO_setmode mode_gpio, None), (GPIO_setup ce_gpios, None),
           (GPIO_output ce_gpios LOW, None)])" by blast
  have "settled new_i2c_addresses ce_gpios [(GPIO_setmode mode_gpio, None),
          (GPIO_setup ce_gpios, None), (GPIO_output ce_gpios LOW, None)]
      \<and> one_at_a_time new_i2c_addresses ce_gpios [(GPIO_setmode mode_gpio, None),
          (GPIO_setup ce_gpios, None), (GPIO_output ce_gpios LOW, None)]"
    by (rule quiet_start) simp
  with realloc_addr_one_at_a_time [OF assms _ _ prod.collapse [symmetric]] eq
  show ?thesis by simp
next
  case False
  then have "snd (init env ce_gpios new_i2c_addresses offsets mode_gpio d)
      \<in> {[], [(GPIO_setmode mode_gpio, setmode_exn env)],
          [(GPIO_setmode mode_gpio, None), (GPIO_setup ce_gpios, setup_exn env)],
          [(GPIO_setmode mode_gpio, None), (GPIO_setup ce_gpios, None),
           (GPIO_output ce_gpios LOW, reset_exn env)]}"
    by (cases offsets) (auto simp: init_def Let_def split: option.splits)
  moreover have "one_at_a_time new_i2c_addresses ce_gpios evs"
    if "\<forall>e \<in> set evs. \<not> is_high e" for evs
    using quiet_start [OF that] by simp
  ultimately show ?thesis by auto
qed

text \<open>
  C2. Claim: at every instant of a run at most one device is powered and not yet reassigned,
  also when a reassignment fails. The code does otherwise on that path: the handler of the
  \<open>OSError\<close> only prints, the enable line stays high and the loop goes on to assert the next
  line. Here the write for the first device raises \<open>OSError\<close>; after the first ten calls of the
  run both devices are powered and neither is reassigned.
\<close>

theorem two_unreassigned_devices_after_failed_write:
  "powered_unassigned [0x30, 0x31] [10, 9]
     (take 10 (snd (init write_0x30_raises [10, 9] [0x30, 0x31] (Some [0, 0]) GPIO_BCM 0x29)))
   = [(0x30, 10), (0x31, 9)]"
  by (simp add: run_simps write_0x30_raises_def all_respond_def powered_unassigned_def
        asserted_def reassigned_def)

text \<open>
  C2, amended. When the enable lines are pairwise distinct and, for every target address, the
  opening of the temporary handle and the write of the address return, then at every instant of
  the run (every prefix of its log, however the run ends) at most one device is powered and not
  yet reassigned.
\<close>

theorem one_unreassigned_device_when_writes_succeed:
  assumes "distinct ce_gpios"
    and "\<forall>a \<in> set new_i2c_addresses. temp_exn env a = None \<and> write_exn env a = None"
    and "init env ce_gpios new_i2c_addresses offsets mode_gpio d = (r, tr)"
    and "prefix p tr"
  shows "length (powered_unassigned new_i2c_addresses ce_gpios p) \<le> 1"
  using init_one_at_a_time [OF assms(1,2), of offsets mode_gpio d] assms(3,4)
  by (simp add: one_at_a_time_def)

theorem one_unreassigned_device_when_writes_succeed_witness:
  "length (powered_unassigned [0x30, 0x31] [10, 9]
     (take 6 (snd (init all_respond [10, 9] [0x30, 0x31] (Some [0, 0]) GPIO_BCM 0x29)))) \<le> 1
   \<and> powered_unassigned [0x30, 0x31] [10, 9]
     (take 6 (snd (init all_respond [10, 9] [0x30, 0x31] (Some [0, 0]) GPIO_BCM 0x29)))
       = [(0x30, 10)]"
proof -
  have "distinct [10, 9 :: int]" by simp
  moreover have "\<forall>a \<in> set [0x30, 0x31 :: int].
      temp_exn all_respond a = None \<and> write_exn all_respond a = None"
    by (simp add: all_respond_def)
  moreover have "prefix
      (take 6 (snd (init all_respond [10, 9] [0x30, 0x31] (Some [0, 0]) GPIO_BCM 0x29)))
      (snd (init all_respond [10, 9] [0x30, 0x31] (Some [0, 0]) GPIO_BCM 0x29))"
    by (rule take_is_prefix)
  ultimately have "length (powered_unassigned [0x30, 0x31] [10, 9]
     (take 6 (snd (init all_respond [10, 9] [0x30, 0x31] (Some [0, 0]) GPIO_BCM 0x29)))) \<le> 1"
    using one_unreassigned_device_when_writes_succeed
      [OF _ _ prod.collapse [symmetric], of "[10, 9]" "[0x30, 0x31]" all_respond] by blast
  moreover have "powered_unassigned [0x30, 0x31] [10, 9]
     (take 6 (snd (init all_respond [10, 9] [0x30, 0x31] (Some [0, 0]) GPIO_BCM 0x29)))
       = [(0x30, 10)]"
    by (simp add: run_simps all_respond_def powered_unassigned_def asserted_def reassigned_def)
  ultimately show ?thesis by simp
qed

section \<open>A failed reassignment\<close>

lemma asserted_stays:
  "asserted tr c \<Longrightarrow> \<forall>cs oc. (GPIO_output cs LOW, oc) \<notin> set evs
   \<Longrightarrow> asserted (tr @ evs) c"
proof (induction evs rule: rev_induct)
  case Nil
  then show ?case by simp
next
  case (snoc e evs)
  then have on: "asserted (tr @ evs) c" by simp
  have "drive c True e"
  proof (cases e)
    case (Pair cl oc)
    from snoc.prems(2) Pair have "\<forall>cs. cl \<noteq> GPIO_output cs LOW" by auto
    then show ?thesis
      by (cases "(c, True, e)" rule: drive.cases) (auto simp: Pair intro: level.exhaust)
  qed
  with on show ?case
    using asserted_snoc [of "tr @ evs" e c] by simp
qed

lemma iter_events_no_low: "(GPIO_output cs LOW, oc) \<notin> set (iter_events env d item)"
  by (auto simp: iter_events_def try_reassign_def split: option.splits)

lemma build_events_no_low: "(GPIO_output cs lvl, oc) \<notin> set (build_events env i rest)"
  by (induction env i rest rule: build_events.induct) auto

lemma iter_events_mem:
  "(GPIO_output [snd item] HIGH, None) \<in> set (iter_events env d item)"
  "(VL6180X d 0, temp_exn env (fst item)) \<in> set (iter_events env d item)"
  "temp_exn env (fst item) = None \<Longrightarrow>
     (Write_8 d SUBORDINATE_ADDR_REG (fst item), write_exn env (fst item))
       \<in> set (iter_events env d item)"
  by (auto simp: iter_events_def try_reassign_def split: option.splits)

text \<open>
  C1. Claim: when the write for device \<open>k\<close> fails, the later devices are still sequenced, the
  line of device \<open>k\<close> stays asserted, and device \<open>k\<close> is absent from the returned collection. The
  code keeps no record of the failure: the final loop opens a handle for every input entry,
  and whether device \<open>k\<close> is returned depends on that open alone. Here the write for the first
  device raises \<open>OSError\<close>, its final handle open succeeds, and the device is returned.
\<close>

theorem device_with_failed_write_still_returned:
  "write_exn write_0x30_raises 0x30 = Some OSError
   \<and> init write_0x30_raises [10, 9] [0x30, 0x31] (Some [0, 0]) GPIO_BCM 0x29
      = (Inr [\<lparr>address = 0x30, offset = 0\<rparr>, \<lparr>address = 0x31, offset = 0\<rparr>],
         [(GPIO_setmode GPIO_BCM, None), (GPIO_setup [10, 9], None),
          (GPIO_output [10, 9] LOW, None), (I2C_open, None), (I2C_scan, None),
          (GPIO_output [10] HIGH, None), (Sleep, None), (VL6180X 0x29 0, None),
          (Write_8 0x29 SUBORDINATE_ADDR_REG 0x30, Some OSError),
          (GPIO_output [9] HIGH, None), (Sleep, None), (VL6180X 0x29 0, None),
          (Write_8 0x29 SUBORDINATE_ADDR_REG 0x31, None),
          (VL6180X 0x30 0, None), (VL6180X 0x31 0, None)])"
  by (simp add: run_simps write_0x30_raises_def all_respond_def)

text \<open>
  C1, amended. Take a valid configuration with distinct target addresses and distinct enable
  lines, an environment where the GPIO calls and the opening of the bus return and handle opens
  and writes fail with \<open>OSError\<close> only, and a scan that returns. If device \<open>k\<close> is pending and
  its write raises \<open>OSError\<close>, then the constructor returns; the enable line of device \<open>k\<close> is
  asserted at every later instant of the run; every later pending device has its line
  asserted, its temporary handle opened and, when that open returns, its address written; and
  the final loop opens a handle for every device, a device being in the returned collection
  exactly when its own final open returns. So device \<open>k\<close> is absent exactly when its final
  handle open fails, and every later device whose final open succeeds is present.
\<close>

theorem failed_write_later_devices_still_sequenced:
  assumes "length ce_gpios = length new_i2c_addresses" "length offsets = length ce_gpios"
    and "\<forall>addr \<in> set new_i2c_addresses. 0 \<le> addr \<and> addr \<le> 127"
    and "mode_gpio = GPIO_BCM \<or> mode_gpio = GPIO_BOARD"
    and "0 \<le> d" "d \<le> 127"
    and "transport_failures_only env" "scan_out env = Inr busy"
    and "distinct new_i2c_addresses" "distinct ce_gpios"
    and "k < length new_i2c_addresses" "new_i2c_addresses ! k \<notin> set busy"
    and "temp_exn env (new_i2c_addresses ! k) = None"
    and "write_exn env (new_i2c_addresses ! k) = Some OSError"
  shows "\<exists>sensors pre post.
      init env ce_gpios new_i2c_addresses (Some offsets) mode_gpio d
        = (Inr sensors,
           pre @ (Write_8 d SUBORDINATE_ADDR_REG (new_i2c_addresses ! k), Some OSError) # post)
      \<and> (\<forall>n. asserted
             (pre @ (Write_8 d SUBORDINATE_ADDR_REG (new_i2c_addresses ! k), Some OSError)
                # take n post) (ce_gpios ! k))
      \<and> (\<forall>j. k < j \<and> j < length new_i2c_addresses \<and> new_i2c_addresses ! j \<notin> set busy \<longrightarrow>
            (GPIO_output [ce_gpios ! j] HIGH, None) \<in> set post
            \<and> (VL6180X d 0, temp_exn env (new_i2c_addresses ! j)) \<in> set post
            \<and> (temp_exn env (new_i2c_addresses ! j) = None \<longrightarrow>
                 (Write_8 d SUBORDINATE_ADDR_REG (new_i2c_addresses ! j),
                  write_exn env (new_i2c_addresses ! j)) \<in> set post))
      \<and> (\<forall>j < length new_i2c_addresses.
            (VL6180X (new_i2c_addresses ! j) (offsets ! j), sensor_exn env j) \<in> set post
            \<and> (\<lparr>address = new_i2c_addresses ! j, offset = offsets ! j\<rparr> \<in> set sensors
                 \<longleftrightarrow> sensor_exn env j = None))"
proof -
  let ?Z = "zip new_i2c_addresses ce_gpios"
  let ?Zo = "zip new_i2c_addresses offsets"
  let ?P = "\<lambda>p :: i2c_addr \<times> channel. fst p \<notin> set busy"
  let ?a = "new_i2c_addresses ! k" and ?c = "ce_gpios ! k"
  let ?A = "concat (map (iter_events env d) (filter ?P (take k ?Z)))"
  let ?B = "concat (map (iter_events env d) (filter ?P (drop (Suc k) ?Z)))"
  let ?w = "(Write_8 d SUBORDINATE_ADDR_REG ?a, Some OSError)"
  let ?pre = "prologue mode_gpio ce_gpios @ ?A
                @ [(GPIO_output [?c] HIGH, None), (Sleep, None), (VL6180X d 0, None)]"
  let ?post = "?B @ build_events env 0 ?Zo"
  let ?sensors = "built env 0 ?Zo"
  have kZ: "k < length ?Z" using assms(1,11) by simp
  have Z: "?Z = take k ?Z @ (?a, ?c) # drop (Suc k) ?Z"
    using id_take_nth_drop [OF kZ] kZ by simp
  have wa: "working_address new_i2c_addresses ce_gpios busy
      = filter ?P (take k ?Z) @ (?a, ?c) # filter ?P (drop (Suc k) ?Z)"
  proof -
    have "working_address new_i2c_addresses ce_gpios busy = filter ?P ?Z"
      using working_address_distinct_keys [OF assms(9) assms(1)] .
    also have "\<dots> = filter ?P (take k ?Z @ (?a, ?c) # drop (Suc k) ?Z)"
      using Z by simp
    finally show ?thesis using assms(12) by simp
  qed
  have it: "iter_events env d (?a, ?c)
      = [(GPIO_output [?c] HIGH, None), (Sleep, None), (VL6180X d 0, None), ?w]"
    using assms(13,14) by (simp add: iter_events_def try_reassign_def)
  have run: "init env ce_gpios new_i2c_addresses (Some offsets) mode_gpio d
      = (Inr ?sensors, ?pre @ ?w # ?post)"
    using init_benign [OF assms(1-8)] by (simp add: wa it)
  have held: "asserted (?pre @ ?w # take n ?post) ?c" for n
  proof -
    have "asserted ((prologue mode_gpio ce_gpios @ ?A) @ [(GPIO_output [?c] HIGH, None)]) ?c"
      unfolding asserted_snoc by simp
    moreover have "\<forall>cs oc. (GPIO_output cs LOW, oc)
        \<notin> set ([(Sleep, None), (VL6180X d 0, None), ?w] @ take n ?post)"
    proof (intro allI notI)
      fix cs oc
      assume "(GPIO_output cs LOW, oc)
          \<in> set ([(Sleep, None), (VL6180X d 0, None), ?w] @ take n ?post)"
      then have "(GPIO_output cs LOW, oc) \<in> set ?post"
        by (auto dest: in_set_takeD)
      then show False
        using iter_events_no_low [of cs oc env d] build_events_no_low [of cs LOW oc env 0 ?Zo]
        by auto
    qed
    ultimately have "asserted (((prologue mode_gpio ce_gpios @ ?A)
        @ [(GPIO_output [?c] HIGH, None)])
        @ ([(Sleep, None), (VL6180X d 0, None), ?w] @ take n ?post)) ?c"
      by (rule asserted_stays)
    then show ?thesis by simp
  qed
  have later: "(GPIO_output [ce_gpios ! j] HIGH, None) \<in> set ?post
      \<and> (VL6180X d 0, temp_exn env (new_i2c_addresses ! j)) \<in> set ?post
      \<and> (temp_exn env (new_i2c_addresses ! j) = None \<longrightarrow>
           (Write_8 d SUBORDINATE_ADDR_REG (new_i2c_addresses ! j),
            write_exn env (new_i2c_addresses ! j)) \<in> set ?post)"
    if j: "k < j" "j < length new_i2c_addresses" "new_i2c_addresses ! j \<notin> set busy" for j
  proof -
    let ?item = "(new_i2c_addresses ! j, ce_gpios ! j)"
    have jZ: "j < length ?Z" using j(2) assms(1) by simp
    have "drop (Suc k) ?Z ! (j - Suc k) = ?Z ! j" using j(1) jZ by simp
    moreover have "j - Suc k < length (drop (Suc k) ?Z)" using j(1) jZ by auto
    ultimately have "?Z ! j \<in> set (drop (Suc k) ?Z)" by (metis nth_mem)
    then have "?item \<in> set (filter ?P (drop (Suc k) ?Z))"
      using j(3) jZ by simp
    then have "set (iter_events env d ?item) \<subseteq> set ?post" by auto
    then have sub: "x \<in> set (iter_events env d ?item) \<Longrightarrow> x \<in> set ?post" for x
      by (rule subsetD)
    have "(GPIO_output [ce_gpios ! j] HIGH, None) \<in> set ?post"
      using iter_events_mem(1) [of ?item env d] by (intro sub) simp
    moreover have "(VL6180X d 0, temp_exn env (new_i2c_addresses ! j)) \<in> set ?post"
      using iter_events_mem(2) [of d env ?item] by (intro sub) simp
    moreover have "(Write_8 d SUBORDINATE_ADDR_REG (new_i2c_addresses ! j),
            write_exn env (new_i2c_addresses ! j)) \<in> set ?post"
      if "temp_exn env (new_i2c_addresses ! j) = None"
      using iter_events_mem(3) [of env ?item d] that by (intro sub) simp
    ultimately show ?thesis by blast
  qed
  have final: "(VL6180X (new_i2c_addresses ! j) (offsets ! j), sensor_exn env j) \<in> set ?post
      \<and> (\<lparr>address = new_i2c_addresses ! j, offset = offsets ! j\<rparr> \<in> set ?sensors
           \<longleftrightarrow> sensor_exn env j = None)"
    if j: "j < length new_i2c_addresses" for j
  proof -
    have jZ: "j < length ?Zo" using j assms(1,2) by simp
    have "build_events env 0 ?Zo ! j
        = (VL6180X (new_i2c_addresses ! j) (offsets ! j), sensor_exn env j)"
      using build_events_nth [OF jZ, of env 0] jZ by simp
    moreover have "j < length (build_events env 0 ?Zo)"
      using jZ by (simp add: length_build_events)
    ultimately have 1: "(VL6180X (new_i2c_addresses ! j) (offsets ! j), sensor_exn env j)
        \<in> set ?post"
      by (metis nth_mem Un_iff set_append)
    have 2: "\<lparr>address = new_i2c_addresses ! j, offset = offsets ! j\<rparr> \<in> set ?sensors"
      if "sensor_exn env j = None"
      using built_mem [OF jZ, of env 0] that jZ by simp
    have 3: "sensor_exn env j = None"
      if "\<lparr>address = new_i2c_addresses ! j, offset = offsets ! j\<rparr> \<in> set ?sensors"
    proof -
      from built_address [OF that] obtain m where m: "m < length ?Zo"
        "sensor_exn env (0 + m) = None"
        "\<lparr>address = new_i2c_addresses ! j, offset = offsets ! j\<rparr>
           = \<lparr>address = fst (?Zo ! m), offset = snd (?Zo ! m)\<rparr>"
        by blast
      then have "new_i2c_addresses ! j = new_i2c_addresses ! m" by simp
      with assms(9) j m(1) have "j = m" by (simp add: nth_eq_iff_index_eq)
      with m(2) show ?thesis by simp
    qed
    from 1 2 3 show ?thesis by blast
  qed
  from run held later final show ?thesis by blast
qed

theorem failed_write_later_devices_still_sequenced_witness:
  "\<exists>sensors pre post.
     init write_0x30_raises [10, 9] [0x30, 0x31] (Some [0, 0]) GPIO_BCM 0x29
       = (Inr sensors, pre @ (Write_8 0x29 SUBORDINATE_ADDR_REG 0x30, Some OSError) # post)
     \<and> asserted (pre @ (Write_8 0x29 SUBORDINATE_ADDR_REG 0x30, Some OSError) # post) 10
     \<and> (GPIO_output [9] HIGH, None) \<in> set post
     \<and> (Write_8 0x29 SUBORDINATE_ADDR_REG 0x31, None) \<in> set post
     \<and> (VL6180X 0x30 0, None) \<in> set post
     \<and> \<lparr>address = 0x30, offset = 0\<rparr> \<in> set sensors
     \<and> \<lparr>address = 0x31, offset = 0\<rparr> \<in> set sensors"
proof -
  have env: "transport_failures_only write_0x30_raises" "scan_out write_0x30_raises = Inr []"
    "temp_exn write_0x30_raises ([0x30, 0x31] ! 0) = None"
    "write_exn write_0x30_raises ([0x30, 0x31] ! 0) = Some OSError"
    by (simp_all add: transport_failures_only_def write_0x30_raises_def all_respond_def)
  have v: "length [10, 9 :: int] = length [0x30, 0x31 :: int]"
    "length [0, 0 :: int] = length [10, 9 :: int]"
    "\<forall>addr \<in> set [0x30, 0x31 :: int]. 0 \<le> addr \<and> addr \<le> 127"
    "GPIO_BCM = GPIO_BCM \<or> GPIO_BCM = GPIO_BOARD" "(0 :: int) \<le> 0x29" "(0x29 :: int) \<le> 127"
    by simp_all
  have dev: "distinct [0x30, 0x31 :: int]" "distinct [10, 9 :: int]"
    "0 < length [0x30, 0x31 :: int]" "[0x30, 0x31 :: int] ! 0 \<notin> set []"
    by simp_all
  from failed_write_later_devices_still_sequenced
    [OF v env(1,2) dev env(3,4)]
  obtain sensors pre post where
    run: "init write_0x30_raises [10, 9] [0x30, 0x31] (Some [0, 0]) GPIO_BCM 0x29
       = (Inr sensors,
          pre @ (Write_8 0x29 SUBORDINATE_ADDR_REG ([0x30, 0x31] ! 0), Some OSError) # post)"
    and held: "\<forall>n. asserted
        (pre @ (Write_8 0x29 SUBORDINATE_ADDR_REG ([0x30, 0x31] ! 0), Some OSError)
           # take n post) ([10, 9] ! 0)"
    and later: "\<forall>j. 0 < j \<and> j < length [0x30, 0x31 :: int] \<and> [0x30, 0x31 :: int] ! j \<notin> set [] \<longrightarrow>
        (GPIO_output [[10, 9] ! j] HIGH, None) \<in> set post
        \<and> (VL6180X 0x29 0, temp_exn write_0x30_raises ([0x30, 0x31] ! j)) \<in> set post
        \<and> (temp_exn write_0x30_raises ([0x30, 0x31] ! j) = None \<longrightarrow>
             (Write_8 0x29 SUBORDINATE_ADDR_REG ([0x30, 0x31] ! j),
              write_exn write_0x30_raises ([0x30, 0x31] ! j)) \<in> set post)"
    and final: "\<forall>j < length [0x30, 0x31 :: int].
        (VL6180X ([0x30, 0x31] ! j) ([0, 0] ! j), sensor_exn write_0x30_raises j) \<in> set post
        \<and> (\<lparr>address = [0x30, 0x31] ! j, offset = [0, 0] ! j\<rparr> \<in> set sensors
             \<longleftrightarrow> sensor_exn write_0x30_raises j = None)"
    by blast
  have e: "temp_exn write_0x30_raises 0x31 = None" "write_exn write_0x30_raises 0x31 = None"
    "sensor_exn write_0x30_raises 0 = None" "sensor_exn write_0x30_raises 1 = None"
    by (simp_all add: write_0x30_raises_def all_respond_def)
  from held [rule_format, of "length post"]
  have 1: "asserted (pre @ (Write_8 0x29 SUBORDINATE_ADDR_REG 0x30, Some OSError) # post) 10"
    by simp
  from later [rule_format, of 1] e
  have 2: "(GPIO_output [9] HIGH, None) \<in> set post"
    "(Write_8 0x29 SUBORDINATE_ADDR_REG 0x31, None) \<in> set post"
    by simp_all
  from final [rule_format, of 0] e
  have 3: "(VL6180X 0x30 0, None) \<in> set post" "\<lparr>address = 0x30, offset = 0\<rparr> \<in> set sensors"
    by simp_all
  from final [rule_format, of 1] e
  have 4: "\<lparr>address = 0x31, offset = 0\<rparr> \<in> set sensors"
    by simp
  from run 1 2 3 4 show ?thesis by auto
qed

section \<open>Transport errors\<close>

text \<open>
  C6. Claim: a transport error during the bus scan, a register write or a handle open is
  recovered for the device concerned and never aborts the run. For the scan the code does
  otherwise: \<open>i2c.scan()\<close> is called outside every \<open>try\<close> of \<open>_realloc_addr\<close>, and the handler of
  the constructor raises the exception again. Here the scan raises \<open>OSError\<close>, and so does
  the constructor, after five hardware calls.
\<close>

theorem scan_error_aborts_init:
  "init scan_raises [10] [0x30] (Some [0]) GPIO_BCM 0x29
     = (Inl OSError,
        [(GPIO_setmode GPIO_BCM, None), (GPIO_setup [10], None), (GPIO_output [10] LOW, None),
         (I2C_open, None), (I2C_scan, Some OSError)])"
  by (simp add: run_simps scan_raises_def all_respond_def)

text \<open>
  C6, amended. Take a valid configuration and an environment where the GPIO calls and the
  opening of the bus return and every handle open and register write returns or raises
  \<open>OSError\<close>. If the scan returns, the constructor returns, whichever opens and writes fail, and
  the run is complete: the log is the calls of the start, then for every pending device the
  assertion of its line, the opening of the temporary handle and, when that open returns, the
  write of its address, then one final handle open for every input entry. The returned
  collection holds, in input order, exactly the devices whose own final open returns, so a
  failure costs at most the device it occurs for. If the scan raises, the constructor raises
  the same exception after the calls of the start, and no device is sequenced.
\<close>

theorem device_errors_recovered_scan_error_raised:
  assumes "length ce_gpios = length new_i2c_addresses" "length offsets = length ce_gpios"
    and "\<forall>addr \<in> set new_i2c_addresses. 0 \<le> addr \<and> addr \<le> 127"
    and "mode_gpio = GPIO_BCM \<or> mode_gpio = GPIO_BOARD"
    and "0 \<le> d" "d \<le> 127"
    and "transport_failures_only env"
  shows "(\<forall>busy. scan_out env = Inr busy \<longrightarrow>
            (\<exists>sensors tr.
               init env ce_gpios new_i2c_addresses (Some offsets) mode_gpio d = (Inr sensors, tr)
               \<and> sensors = built env 0 (zip new_i2c_addresses offsets)
               \<and> tr = prologue mode_gpio ce_gpios
                    @ concat (map (iter_events env d)
                        (working_address new_i2c_addresses ce_gpios busy))
                    @ build_events env 0 (zip new_i2c_addresses offsets)
               \<and> (\<forall>item \<in> set (working_address new_i2c_addresses ce_gpios busy).
                    (GPIO_output [snd item] HIGH, None) \<in> set tr
                    \<and> (VL6180X d 0, temp_exn env (fst item)) \<in> set tr
                    \<and> (temp_exn env (fst item) = None \<longrightarrow>
                         (Write_8 d SUBORDINATE_ADDR_REG (fst item), write_exn env (fst item))
                           \<in> set tr))
               \<and> (\<forall>j < length new_i2c_addresses.
                    (VL6180X (new_i2c_addresses ! j) (offsets ! j), sensor_exn env j) \<in> set tr)
               \<and> (\<forall>s. s \<in> set sensors \<longleftrightarrow>
                    (\<exists>j < length new_i2c_addresses. sensor_exn env j = None
                       \<and> s = \<lparr>address = new_i2c_addresses ! j, offset = offsets ! j\<rparr>))
               \<and> length sensors \<le> length new_i2c_addresses))
     \<and> (\<forall>e. scan_out env = Inl e \<longrightarrow>
            init env ce_gpios new_i2c_addresses (Some offsets) mode_gpio d
              = (Inl e,
                 [(GPIO_setmode mode_gpio, None), (GPIO_setup ce_gpios, None),
                  (GPIO_output ce_gpios LOW, None), (I2C_open, None), (I2C_scan, Some e)]))"
proof (intro conjI allI impI)
  fix busy assume scan: "scan_out env = Inr busy"
  let ?Zo = "zip new_i2c_addresses offsets"
  let ?wa = "working_address new_i2c_addresses ce_gpios busy"
  let ?sensors = "built env 0 ?Zo"
  let ?tr = "prologue mode_gpio ce_gpios @ concat (map (iter_events env d) ?wa)
               @ build_events env 0 ?Zo"
  have len: "length ?Zo = length new_i2c_addresses" using assms(1,2) by simp
  have run: "init env ce_gpios new_i2c_addresses (Some offsets) mode_gpio d = (Inr ?sensors, ?tr)"
    using init_benign [OF assms scan] .
  have pending: "(GPIO_output [snd item] HIGH, None) \<in> set ?tr
        \<and> (VL6180X d 0, temp_exn env (fst item)) \<in> set ?tr
        \<and> (temp_exn env (fst item) = None \<longrightarrow>
             (Write_8 d SUBORDINATE_ADDR_REG (fst item), write_exn env (fst item)) \<in> set ?tr)"
    if item: "item \<in> set ?wa" for item
  proof -
    have sub: "x \<in> set (iter_events env d item) \<Longrightarrow> x \<in> set ?tr" for x
      using item by auto
    have "(GPIO_output [snd item] HIGH, None) \<in> set ?tr"
      by (rule sub) (rule iter_events_mem(1))
    moreover have "(VL6180X d 0, temp_exn env (fst item)) \<in> set ?tr"
      by (rule sub) (rule iter_events_mem(2))
    moreover have "(Write_8 d SUBORDINATE_ADDR_REG (fst item), write_exn env (fst item))
        \<in> set ?tr" if "temp_exn env (fst item) = None"
      by (rule sub) (rule iter_events_mem(3) [OF that])
    ultimately show ?thesis by blast
  qed
  have opens: "(VL6180X (new_i2c_addresses ! j) (offsets ! j), sensor_exn env j) \<in> set ?tr"
    if j: "j < length new_i2c_addresses" for j
  proof -
    have jZ: "j < length ?Zo" using j len by simp
    have "build_events env 0 ?Zo ! j
        = (VL6180X (new_i2c_addresses ! j) (offsets ! j), sensor_exn env j)"
      using build_events_nth [OF jZ, of env 0] jZ by simp
    moreover have "j < length (build_events env 0 ?Zo)"
      using jZ by (simp add: length_build_events)
    ultimately have "(VL6180X (new_i2c_addresses ! j) (offsets ! j), sensor_exn env j)
        \<in> set (build_events env 0 ?Zo)"
      by (metis nth_mem)
    then show ?thesis by simp
  qed
  have members: "s \<in> set ?sensors \<longleftrightarrow>
      (\<exists>j < length new_i2c_addresses. sensor_exn env j = None
         \<and> s = \<lparr>address = new_i2c_addresses ! j, offset = offsets ! j\<rparr>)" for s
  proof
    assume "s \<in> set ?sensors"
    from built_address [OF this] obtain k where k: "k < length ?Zo"
      "sensor_exn env (0 + k) = None" "s = \<lparr>address = fst (?Zo ! k), offset = snd (?Zo ! k)\<rparr>"
      by blast
    then show "\<exists>j < length new_i2c_addresses. sensor_exn env j = None
         \<and> s = \<lparr>address = new_i2c_addresses ! j, offset = offsets ! j\<rparr>"
      using len by (intro exI [of _ k]) simp
  next
    assume "\<exists>j < length new_i2c_addresses. sensor_exn env j = None
         \<and> s = \<lparr>address = new_i2c_addresses ! j, offset = offsets ! j\<rparr>"
    then obtain j where j: "j < length new_i2c_addresses" "sensor_exn env j = None"
      "s = \<lparr>address = new_i2c_addresses ! j, offset = offsets ! j\<rparr>" by blast
    have jZ: "j < length ?Zo" using j(1) len by simp
    from built_mem [OF jZ, of env 0] j jZ show "s \<in> set ?sensors" by simp
  qed
  have short: "length ?sensors \<le> length new_i2c_addresses"
    using built_subseq [of env 0 ?Zo] len by (metis length_map list_emb_length)
  from run pending opens members short
  show "\<exists>sensors tr.
               init env ce_gpios new_i2c_addresses (Some offsets) mode_gpio d = (Inr sensors, tr)
               \<and> sensors = built env 0 (zip new_i2c_addresses offsets)
               \<and> tr = prologue mode_gpio ce_gpios
                    @ concat (map (iter_events env d)
                        (working_address new_i2c_addresses ce_gpios busy))
                    @ build_events env 0 (zip new_i2c_addresses offsets)
               \<and> (\<forall>item \<in> set (working_address new_i2c_addresses ce_gpios busy).
                    (GPIO_output [snd item] HIGH, None) \<in> set tr
                    \<and> (VL6180X d 0, temp_exn env (fst item)) \<in> set tr
                    \<and> (temp_exn env (fst item) = None \<longrightarrow>
                         (Write_8 d SUBORDINATE_ADDR_REG (fst item), write_exn env (fst item))
                           \<in> set tr))
               \<and> (\<forall>j < length new_i2c_addresses.
                    (VL6180X (new_i2c_addresses ! j) (offsets ! j), sensor_exn env j) \<in> set tr)
               \<and> (\<forall>s. s \<in> set sensors \<longleftrightarrow>
                    (\<exists>j < length new_i2c_addresses. sensor_exn env j = None
                       \<and> s = \<lparr>address = new_i2c_addresses ! j, offset = offsets ! j\<rparr>))
               \<and> length sensors \<le> length new_i2c_addresses"
    by blast
next
  fix e assume "scan_out env = Inl e"
  then show "init env ce_gpios new_i2c_addresses (Some offsets) mode_gpio d
              = (Inl e,
                 [(GPIO_setmode mode_gpio, None), (GPIO_setup ce_gpios, None),
                  (GPIO_output ce_gpios LOW, None), (I2C_open, None), (I2C_scan, Some e)])"
    using assms by (auto simp: init_def realloc_addr_def transport_failures_only_def)
qed

theorem device_errors_recovered_scan_error_raised_witness:
  "init three_failures [10, 9, 11] [0x30, 0x31, 0x32] (Some [1, 2, 3]) GPIO_BCM 0x29
     = (Inr [\<lparr>address = 0x30, offset = 1\<rparr>, \<lparr>address = 0x31, offset = 2\<rparr>],
        [(GPIO_setmode GPIO_BCM, None), (GPIO_setup [10, 9, 11], None),
         (GPIO_output [10, 9, 11] LOW, None), (I2C_open, None), (I2C_scan, None),
         (GPIO_output [10] HIGH, None), (Sleep, None), (VL6180X 0x29 0, None),
         (Write_8 0x29 SUBORDINATE_ADDR_REG 0x30, Some OSError),
         (GPIO_output [9] HIGH, None), (Sleep, None), (VL6180X 0x29 0, Some OSError),
         (GPIO_output [11] HIGH, None), (Sleep, None), (VL6180X 0x29 0, None),
         (Write_8 0x29 SUBORDINATE_ADDR_REG 0x32, None),
         (VL6180X 0x30 1, None), (VL6180X 0x31 2, None), (VL6180X 0x32 3, Some OSError)])
   \<and> init scan_raises [10, 9, 11] [0x30, 0x31, 0x32] (Some [1, 2, 3]) GPIO_BCM 0x29
     = (Inl OSError,
        [(GPIO_setmode GPIO_BCM, None), (GPIO_setup [10, 9, 11], None),
         (GPIO_output [10, 9, 11] LOW, None), (I2C_open, None), (I2C_scan, Some OSError)])"
proof -
  have a: "transport_failures_only three_failures"
    and c: "transport_failures_only scan_raises"
    by (simp_all add: transport_failures_only_def three_failures_def scan_raises_def
          all_respond_def)
  have sa: "scan_out three_failures = Inr []" and sc: "scan_out scan_raises = Inl OSError"
    by (simp_all add: three_failures_def scan_raises_def all_respond_def)
  have v: "length [10, 9, 11 :: int] = length [0x30, 0x31, 0x32 :: int]"
    "length [1, 2, 3 :: int] = length [10, 9, 11 :: int]"
    "\<forall>addr \<in> set [0x30, 0x31, 0x32 :: int]. 0 \<le> addr \<and> addr \<le> 127"
    "GPIO_BCM = GPIO_BCM \<or> GPIO_BCM = GPIO_BOARD" "(0 :: int) \<le> 0x29" "(0x29 :: int) \<le> 127"
    by simp_all
  from device_errors_recovered_scan_error_raised [OF v a] sa
  obtain sensors tr where run:
    "init three_failures [10, 9, 11] [0x30, 0x31, 0x32] (Some [1, 2, 3]) GPIO_BCM 0x29
       = (Inr sensors, tr)"
    "sensors = built three_failures 0 (zip [0x30, 0x31, 0x32] [1, 2, 3])"
    "tr = prologue GPIO_BCM [10, 9, 11]
        @ concat (map (iter_events three_failures 0x29)
            (working_address [0x30, 0x31, 0x32] [10, 9, 11] []))
        @ build_events three_failures 0 (zip [0x30, 0x31, 0x32] [1, 2, 3])"
    by blast
  have 1: "built three_failures 0 (zip [0x30, 0x31, 0x32] [1, 2, 3])
      = [\<lparr>address = 0x30, offset = 1\<rparr>, \<lparr>address = 0x31, offset = 2\<rparr>]"
    by (simp add: three_failures_def all_respond_def)
  have 2: "prologue GPIO_BCM [10, 9, 11]
        @ concat (map (iter_events three_failures 0x29)
            (working_address [0x30, 0x31, 0x32] [10, 9, 11] []))
        @ build_events three_failures 0 (zip [0x30, 0x31, 0x32] [1, 2, 3])
      = [(GPIO_setmode GPIO_BCM, None), (GPIO_setup [10, 9, 11], None),
         (GPIO_output [10, 9, 11] LOW, None), (I2C_open, None), (I2C_scan, None),
         (GPIO_output [10] HIGH, None), (Sleep, None), (VL6180X 0x29 0, None),
         (Write_8 0x29 SUBORDINATE_ADDR_REG 0x30, Some OSError),
         (GPIO_output [9] HIGH, None), (Sleep, None), (VL6180X 0x29 0, Some OSError),
         (GPIO_output [11] HIGH, None), (Sleep, None), (VL6180X 0x29 0, None),
         (Write_8 0x29 SUBORDINATE_ADDR_REG 0x32, None),
         (VL6180X 0x30 1, None), (VL6180X 0x31 2, None), (VL6180X 0x32 3, Some OSError)]"
    by (simp add: three_failures_def all_respond_def prologue_def iter_events_def
          try_reassign_def working_address_def)
  from device_errors_recovered_scan_error_raised [OF v c] sc
  have 3: "init scan_raises [10, 9, 11] [0x30, 0x31, 0x32] (Some [1, 2, 3]) GPIO_BCM 0x29
     = (Inl OSError,
        [(GPIO_setmode GPIO_BCM, None), (GPIO_setup [10, 9, 11], None),
         (GPIO_output [10, 9, 11] LOW, None), (I2C_open, None), (I2C_scan, Some OSError)])"
    by blast
  from run 1 2 3 show ?thesis by simp
qed

end
